theory Spec2Isabelle
  imports Complex_Main "HOL-Library.Word" "HOL-Library.AList"
begin

section \<open>Shared types\<close>

text \<open>
  Instants (\<open>time.Time\<close>) are nanoseconds on one clock and durations
  (\<open>time.Duration\<close>) are nanosecond counts. Go's \<open>int\<close> is modelled as \<open>int\<close> with
  the 64-bit wrap-around written out where an addition can overflow.

  \<open>float64\<close> values are kept abstract: the operations the code applies to them are
  passed as a record, so nothing proved below depends on how floating point rounds.
  \<open>exact_ops\<close> is the instance that computes on real numbers without rounding; it
  coincides with float64 wherever every intermediate value is a small integer.
\<close>

type_synonym time = int
type_synonym duration = int

record 'f float64_ops =
  float64 :: "int \<Rightarrow> 'f"
  Seconds :: "duration \<Rightarrow> 'f"
  fadd :: "'f \<Rightarrow> 'f \<Rightarrow> 'f"
  fmul :: "'f \<Rightarrow> 'f \<Rightarrow> 'f"
  fdiv :: "'f \<Rightarrow> 'f \<Rightarrow> 'f"
  to_int :: "'f \<Rightarrow> int"

definition exact_ops :: "real float64_ops" where
  "exact_ops =
     \<lparr>float64 = real_of_int,
      Seconds = (\<lambda>d. real_of_int d / 1000000000),
      fadd = (\<lambda>x y. x + y),
      fmul = (\<lambda>x y. x * y),
      fdiv = (\<lambda>x y. x / y),
      to_int = (\<lambda>x. if 0 \<le> x then \<lfloor>x\<rfloor> else \<lceil>x\<rceil>)\<rparr>"

definition int_wrap :: "int \<Rightarrow> int" where
  "int_wrap x = (x + 2 ^ 63) mod 2 ^ 64 - 2 ^ 63"

text \<open>The decimal text of an integer, as \<open>%d\<close> prints it.\<close>

function Itoa_nat :: "nat \<Rightarrow> string" where
  "Itoa_nat n =
     (if n < 10 then [''0123456789'' ! n]
      else Itoa_nat (n div 10) @ [''0123456789'' ! (n mod 10)])"
  by pat_completeness auto
termination
  by (relation "measure id") auto

declare Itoa_nat.simps [simp del]

definition Itoa :: "int \<Rightarrow> string" where
  "Itoa i = (if i < 0 then CHR ''-'' # Itoa_nat (nat (- i)) else Itoa_nat (nat i))"

section \<open>Rate limiter (middleware/rate_limiter.go)\<close>

record ClientLimiter =
  tokens :: int
  lastRefill :: time

record RateLimiter =
  clients :: "string \<rightharpoonup> ClientLimiter"
  rpm :: int
  burst :: int

text \<open>\<open>int(elapsed.Seconds() * float64(rpm) / 60.0)\<close>\<close>

definition tokensToAdd :: "'f float64_ops \<Rightarrow> duration \<Rightarrow> int \<Rightarrow> int" where
  "tokensToAdd F elapsed r =
     to_int F (fdiv F (fmul F (Seconds F elapsed) (float64 F r)) (float64 F 60))"

text \<open>\<open>ClientLimiter.allow\<close>; \<open>now\<close> is the value of \<open>time.Now()\<close> read in the call.\<close>

definition allow :: "'f float64_ops \<Rightarrow> time \<Rightarrow> int \<Rightarrow> int \<Rightarrow> ClientLimiter \<Rightarrow> bool \<times> ClientLimiter" where
  "allow F now r b cl =
     (let elapsed = now - lastRefill cl;
          t1 = int_wrap (tokens cl + tokensToAdd F elapsed r);
          t2 = (if t1 > b then b else t1);
          cl' = cl\<lparr>tokens := t2, lastRefill := now\<rparr>
      in if t2 > 0 then (True, cl'\<lparr>tokens := t2 - 1\<rparr>) else (False, cl'))"

text \<open>
  \<open>RateLimiter.Allow\<close>. A client that is not in the table is created with \<open>burst\<close>
  tokens and \<open>lastRefill = tnew\<close>, the clock value read at creation; \<open>now\<close> is the
  later clock value read inside \<open>allow\<close>.
\<close>

definition Allow :: "'f float64_ops \<Rightarrow> time \<Rightarrow> time \<Rightarrow> RateLimiter \<Rightarrow> string \<Rightarrow> bool \<times> RateLimiter" where
  "Allow F tnew now rl clientID =
     (let client = (case clients rl clientID of
                      Some c \<Rightarrow> c
                    | None \<Rightarrow> \<lparr>tokens = burst rl, lastRefill = tnew\<rparr>);
          res = allow F now (rpm rl) (burst rl) client
      in (fst res, rl\<lparr>clients := (clients rl)(clientID \<mapsto> snd res)\<rparr>))"

text \<open>\<open>NewRateLimiter\<close>: an empty client table.\<close>

definition NewRateLimiter :: "int \<Rightarrow> int \<Rightarrow> RateLimiter" where
  "NewRateLimiter requestsPerMinute burstSize =
     \<lparr>clients = Map.empty, rpm = requestsPerMinute, burst = burstSize\<rparr>"

text \<open>
  A run of calls by one client, one clock value per call (the two clock reads of a
  call that creates the record coincide); the answers are returned in order.
\<close>

fun Allow_seq :: "'f float64_ops \<Rightarrow> RateLimiter \<Rightarrow> string \<Rightarrow> time list \<Rightarrow> bool list \<times> RateLimiter" where
  "Allow_seq F rl c [] = ([], rl)"
| "Allow_seq F rl c (t # ts) =
     (let r1 = Allow F t t rl c; r2 = Allow_seq F (snd r1) c ts
      in (fst r1 # fst r2, snd r2))"

text \<open>The same for one client record, starting from its current state.\<close>

fun allow_seq :: "'f float64_ops \<Rightarrow> int \<Rightarrow> int \<Rightarrow> ClientLimiter \<Rightarrow> time list \<Rightarrow> bool list \<times> ClientLimiter" where
  "allow_seq F r b cl [] = ([], cl)"
| "allow_seq F r b cl (t # ts) =
     (let r1 = allow F t r b cl; r2 = allow_seq F r b (snd r1) ts
      in (fst r1 # fst r2, snd r2))"


text \<open>
  The spacing condition of a run of calls: every call comes after the previous refill
  instant and less than \<open>60 / r\<close> seconds after it (\<open>gap * r < 60 s\<close>, in nanoseconds).
\<close>

fun spaced :: "int \<Rightarrow> time \<Rightarrow> time list \<Rightarrow> bool" where
  "spaced r t0 [] = True"
| "spaced r t0 (t # ts) = (0 \<le> t - t0 \<and> (t - t0) * r < 60000000000 \<and> spaced r t ts)"

section \<open>Gateway processor (package processors)\<close>

subsection \<open>Data\<close>

text \<open>
  Go maps that the code ranges over are association lists with distinct keys
  (\<open>m[k] = v\<close> is \<open>AList.update\<close>, a lookup is \<open>map_of\<close>); maps that are only
  written and read by key are partial functions. Pointers to \<open>ServiceMetrics\<close> and
  \<open>HealthCheckResult\<close> structs are addresses into a heap, so that two maps can hold
  the same object. Fields whose name occurs in two structs carry a suffix.
\<close>

type_synonym addr = nat
type_synonym bytes = string

record ServiceInfo =
  URL :: string
  HealthCheck :: string
  Timeout :: int

record HealthCheckResult =
  Service :: string
  Status :: string
  URL_h :: string
  Duration :: duration
  Error :: string
  Timestamp :: time

record 'f ServiceMetrics =
  TotalRequests_s :: "64 word"
  SuccessRequests_s :: "64 word"
  ErrorRequests_s :: "64 word"
  AverageLatency_s :: 'f
  LastRequest :: time

record 'f GatewayMetrics =
  TotalRequests :: "64 word"
  SuccessRequests :: "64 word"
  ErrorRequests :: "64 word"
  AverageLatency :: 'f
  ServiceMetrics :: "(string \<times> addr) list"
  HealthStats :: "(string \<times> addr) list"
  StartTime :: time

record 'f Heap =
  sm_cells :: "addr \<Rightarrow> 'f ServiceMetrics"
  hc_cells :: "addr \<Rightarrow> HealthCheckResult"
  nextAddr :: addr

datatype field = FStr string | FInt int | FBool bool

datatype redis_event =
  PublishLog string string string "string \<rightharpoonup> field"
| PublishMetrics string string "string \<rightharpoonup> field"

text \<open>The outbound \<open>http.Request\<close>, with the deadline of its context in seconds.\<close>

record Request =
  Method :: string
  URL_r :: string
  Body_r :: bytes
  Header :: "string \<rightharpoonup> string list"
  Timeout_r :: int

text \<open>The \<open>http.Response\<close>; \<open>Body_resp\<close> is what \<open>io.ReadAll(resp.Body)\<close> gives.\<close>

record Response =
  StatusCode_r :: int
  Header_r :: "string \<rightharpoonup> string list"
  Body_resp :: "string + bytes"

datatype body_value = BodyNil | BodyJSON bytes | BodyString string

record ProxyResponse =
  StatusCode :: int
  Body :: body_value
  Headers :: "string \<rightharpoonup> string"
  Duration_p :: duration

datatype error =
  ServiceNotFound string
| ReadBodyFailed string
| CreateRequestFailed string
| RequestFailed string
| ReadResponseFailed string
| CreateHealthRequestFailed string

text \<open>
  The processor. \<open>redis\<close> is the list of events published so far and \<open>httpClient\<close>
  the list of requests handed to \<open>httpClient.Do\<close> so far.
\<close>

record 'f GatewayProcessor =
  services :: "(string \<times> ServiceInfo) list"
  healthStats :: "(string \<times> addr) list"
  metrics :: "'f GatewayMetrics"
  heap :: "'f Heap"
  redis :: "redis_event list"
  httpClient :: "Request list"

text \<open>
  What a call reads from outside the program: the clock, the uuid generator, the
  standard library and the upstream. \<open>startTime\<close> is the clock at entry,
  \<open>metricsTime1\<close> and \<open>metricsTime2\<close> the clock inside the first and second
  \<open>updateRequestMetrics\<close> of the call, \<open>elapsed\<close> is \<open>time.Since(startTime)\<close>.
\<close>

record call_env =
  startTime :: time
  metricsTime1 :: time
  metricsTime2 :: time
  elapsed :: duration
  requestID :: string
  NewRequest :: "string \<Rightarrow> string \<Rightarrow> string option"
  Do :: "Request \<Rightarrow> string + Response"
  CanonicalMIMEHeaderKey :: "string \<Rightarrow> string"
  RFC3339 :: "time \<Rightarrow> string"
  json_valid :: "bytes \<Rightarrow> bool"

subsection \<open>Construction\<close>

definition new_sm :: "'f ServiceMetrics \<Rightarrow> 'f Heap \<Rightarrow> addr \<times> 'f Heap" where
  "new_sm v h = (nextAddr h, h\<lparr>sm_cells := (sm_cells h)(nextAddr h := v), nextAddr := Suc (nextAddr h)\<rparr>)"

definition new_hc :: "HealthCheckResult \<Rightarrow> 'f Heap \<Rightarrow> addr \<times> 'f Heap" where
  "new_hc v h = (nextAddr h, h\<lparr>hc_cells := (hc_cells h)(nextAddr h := v), nextAddr := Suc (nextAddr h)\<rparr>)"

definition zero_sm :: "'f float64_ops \<Rightarrow> 'f ServiceMetrics" where
  "zero_sm F = \<lparr>TotalRequests_s = 0, SuccessRequests_s = 0, ErrorRequests_s = 0,
               AverageLatency_s = float64 F 0, LastRequest = 0\<rparr>"

definition zero_hc :: HealthCheckResult where
  "zero_hc = \<lparr>Service = [], Status = [], URL_h = [], Duration = 0, Error = [], Timestamp = 0\<rparr>"

definition NewGatewayProcessor :: "'f float64_ops \<Rightarrow> time \<Rightarrow> 'f GatewayProcessor" where
  "NewGatewayProcessor F now =
     \<lparr>services = [], healthStats = [],
      metrics = \<lparr>TotalRequests = 0, SuccessRequests = 0, ErrorRequests = 0,
                 AverageLatency = float64 F 0, ServiceMetrics = [], HealthStats = [],
                 StartTime = now\<rparr>,
      heap = \<lparr>sm_cells = (\<lambda>_. zero_sm F), hc_cells = (\<lambda>_. zero_hc), nextAddr = 0\<rparr>,
      redis = [], httpClient = []\<rparr>"

text \<open>\<open>Start\<close>: one registry entry and one fresh \<open>ServiceMetrics{}\<close> per configured service.\<close>

definition Start_entry :: "'f float64_ops \<Rightarrow> string \<times> ServiceInfo \<Rightarrow> 'f GatewayProcessor \<Rightarrow> 'f GatewayProcessor" where
  "Start_entry F e gp =
     (let a = new_sm (zero_sm F) (heap gp)
      in gp\<lparr>services := AList.update (fst e) (snd e) (services gp),
            metrics := (metrics gp)\<lparr>ServiceMetrics :=
                          AList.update (fst e) (fst a) (ServiceMetrics (metrics gp))\<rparr>,
            heap := snd a\<rparr>)"

definition Start :: "'f float64_ops \<Rightarrow> (time \<Rightarrow> string) \<Rightarrow> time \<Rightarrow> (string \<times> ServiceInfo) list \<Rightarrow> 'f GatewayProcessor \<Rightarrow> 'f GatewayProcessor" where
  "Start F fmt now registry gp =
     (let gp1 = fold (Start_entry F) registry gp
      in gp1\<lparr>redis := redis gp1 @
           [PublishLog ''info'' ''gateway'' ''Gateway processor started''
              [''services_count'' \<mapsto> FInt (int (length (services gp1))),
               ''start_time'' \<mapsto> FStr (fmt now)]]\<rparr>)"

subsection \<open>Metrics\<close>

text \<open>\<open>Duration.Milliseconds\<close>: integer division that truncates towards zero.\<close>

definition Milliseconds :: "duration \<Rightarrow> int" where
  "Milliseconds d = sgn d * (\<bar>d\<bar> div 1000000)"

definition updateRequestMetrics :: "time \<Rightarrow> string \<Rightarrow> bool \<Rightarrow> 'f GatewayProcessor \<Rightarrow> 'f GatewayProcessor" where
  "updateRequestMetrics now service success gp =
     (let m = metrics gp;
          m1 = m\<lparr>TotalRequests := TotalRequests m + 1\<rparr>;
          m2 = (if success then m1\<lparr>SuccessRequests := SuccessRequests m1 + 1\<rparr>
                else m1\<lparr>ErrorRequests := ErrorRequests m1 + 1\<rparr>);
          h = heap gp
      in case map_of (ServiceMetrics m2) service of
           None \<Rightarrow> gp\<lparr>metrics := m2\<rparr>
         | Some a \<Rightarrow>
             (let sm = sm_cells h a;
                  sm1 = sm\<lparr>TotalRequests_s := TotalRequests_s sm + 1, LastRequest := now\<rparr>;
                  sm2 = (if success then sm1\<lparr>SuccessRequests_s := SuccessRequests_s sm1 + 1\<rparr>
                         else sm1\<lparr>ErrorRequests_s := ErrorRequests_s sm1 + 1\<rparr>)
              in gp\<lparr>metrics := m2, heap := h\<lparr>sm_cells := (sm_cells h)(a := sm2)\<rparr>\<rparr>))"

definition updateLatencyMetrics :: "'f float64_ops \<Rightarrow> string \<Rightarrow> duration \<Rightarrow> 'f GatewayProcessor \<Rightarrow> 'f GatewayProcessor" where
  "updateLatencyMetrics F service d gp =
     (let m = metrics gp;
          latencyMs = float64 F (Milliseconds d);
          m1 = (if TotalRequests m = 1 then m\<lparr>AverageLatency := latencyMs\<rparr>
                else m\<lparr>AverageLatency :=
                       fdiv F (fadd F (fmul F (AverageLatency m) (float64 F (sint (TotalRequests m - 1))))
                                      latencyMs)
                              (float64 F (sint (TotalRequests m)))\<rparr>);
          h = heap gp
      in case map_of (ServiceMetrics m1) service of
           None \<Rightarrow> gp\<lparr>metrics := m1\<rparr>
         | Some a \<Rightarrow>
             (let sm = sm_cells h a;
                  sm1 = (if TotalRequests_s sm = 1 then sm\<lparr>AverageLatency_s := latencyMs\<rparr>
                         else sm\<lparr>AverageLatency_s :=
                                fdiv F (fadd F (fmul F (AverageLatency_s sm)
                                                       (float64 F (sint (TotalRequests_s sm - 1))))
                                               latencyMs)
                                       (float64 F (sint (TotalRequests_s sm)))\<rparr>)
              in gp\<lparr>metrics := m1, heap := h\<lparr>sm_cells := (sm_cells h)(a := sm1)\<rparr>\<rparr>))"

subsection \<open>Logging\<close>

definition logRequest :: "string \<Rightarrow> string \<Rightarrow> string \<Rightarrow> string \<Rightarrow> string \<Rightarrow> 'f GatewayProcessor \<Rightarrow> 'f GatewayProcessor" where
  "logRequest service method path userID rid gp =
     gp\<lparr>redis := redis gp @
        [PublishLog ''info'' ''gateway'' (method @ '' '' @ path @ '' proxied to '' @ service)
           [''service'' \<mapsto> FStr service, ''method'' \<mapsto> FStr method, ''path'' \<mapsto> FStr path,
            ''user_id'' \<mapsto> FStr userID, ''request_id'' \<mapsto> FStr rid]]\<rparr>"

definition logMetrics :: "string \<Rightarrow> string \<Rightarrow> string \<Rightarrow> string \<Rightarrow> duration \<Rightarrow> int \<Rightarrow> string \<Rightarrow> string \<Rightarrow> (string \<rightharpoonup> field) \<Rightarrow> 'f GatewayProcessor \<Rightarrow> 'f GatewayProcessor" where
  "logMetrics eventType service method path d status userID rid metadata gp =
     gp\<lparr>redis := redis gp @
        [PublishMetrics eventType service
           ([''method'' \<mapsto> FStr method, ''path'' \<mapsto> FStr path, ''duration_ms'' \<mapsto> FInt (Milliseconds d),
             ''status'' \<mapsto> FInt status, ''user_id'' \<mapsto> FStr userID, ''request_id'' \<mapsto> FStr rid]
            ++ metadata)]\<rparr>"

subsection \<open>Proxying\<close>

text \<open>\<open>req.Header.Set(key, value)\<close>: the key is canonicalised, the value replaces all.\<close>

definition Header_Set :: "call_env \<Rightarrow> string \<Rightarrow> string \<Rightarrow> (string \<rightharpoonup> string list) \<Rightarrow> (string \<rightharpoonup> string list)" where
  "Header_Set env key v h = h(CanonicalMIMEHeaderKey env key \<mapsto> [v])"

text \<open>
  The body is an \<open>io.Reader\<close>: \<open>None\<close> is the nil reader, otherwise the value is what
  \<open>io.ReadAll\<close> returns from it.
\<close>

definition read_body :: "(string + bytes) option \<Rightarrow> string + bytes" where
  "read_body body = (case body of None \<Rightarrow> Inr [] | Some r \<Rightarrow> r)"

definition ProxyRequest :: "'f float64_ops \<Rightarrow> call_env \<Rightarrow> string \<Rightarrow> string \<Rightarrow> string \<Rightarrow> (string + bytes) option \<Rightarrow> (string \<times> string) list \<Rightarrow> string \<Rightarrow> 'f GatewayProcessor \<Rightarrow> (error + ProxyResponse) \<times> 'f GatewayProcessor" where
  "ProxyRequest F env service path method body headers userID gp =
     (let gp1 = updateRequestMetrics (metricsTime1 env) service True gp;
          gp2 = logRequest service method path userID (requestID env) gp1
      in case map_of (services gp2) service of
           None \<Rightarrow>
             (Inl (ServiceNotFound service),
              updateRequestMetrics (metricsTime2 env) service False gp2)
         | Some serviceInfo \<Rightarrow>
         (case read_body body of
           Inl e \<Rightarrow>
             (Inl (ReadBodyFailed e), updateRequestMetrics (metricsTime2 env) service False gp2)
         | Inr bodyBytes \<Rightarrow>
         (let fullURL = URL serviceInfo @ path
          in case NewRequest env method fullURL of
           Some e \<Rightarrow>
             (Inl (CreateRequestFailed e), updateRequestMetrics (metricsTime2 env) service False gp2)
         | None \<Rightarrow>
         (let h1 = fold (\<lambda>kv. Header_Set env (fst kv) (snd kv)) headers Map.empty;
              h2 = Header_Set env ''X-Request-ID'' (requestID env) h1;
              h3 = Header_Set env ''X-User-ID'' userID h2;
              h4 = Header_Set env ''X-Gateway-Timestamp'' (RFC3339 env (startTime env)) h3;
              h5 = Header_Set env ''X-Service-Name'' service h4;
              req = \<lparr>Method = method, URL_r = fullURL, Body_r = bodyBytes, Header = h5,
                     Timeout_r = Timeout serviceInfo\<rparr>;
              gp3 = gp2\<lparr>httpClient := httpClient gp2 @ [req]\<rparr>;
              d = elapsed env
          in case Do env req of
           Inl e \<Rightarrow>
             (Inl (RequestFailed e),
              logMetrics ''request'' service method path d 0 userID (requestID env)
                [''error'' \<mapsto> FStr e]
                (updateLatencyMetrics F service d
                   (updateRequestMetrics (metricsTime2 env) service False gp3)))
         | Inr resp \<Rightarrow>
         (case Body_resp resp of
           Inl e \<Rightarrow>
             (Inl (ReadResponseFailed e), updateRequestMetrics (metricsTime2 env) service False gp3)
         | Inr responseBody \<Rightarrow>
         (let success = (200 \<le> StatusCode_r resp \<and> StatusCode_r resp < 400);
              gp4 = (if \<not> success then updateRequestMetrics (metricsTime2 env) service False gp3
                     else gp3);
              gp5 = updateLatencyMetrics F service d gp4;
              gp6 = logMetrics ''request'' service method path d (StatusCode_r resp) userID
                      (requestID env)
                      [''response_size'' \<mapsto> FInt (int (length responseBody)), ''success'' \<mapsto> FBool success]
                      gp5;
              bodyInterface =
                (if length responseBody > 0
                 then (if json_valid env responseBody then BodyJSON responseBody
                       else BodyString responseBody)
                 else BodyNil);
              responseHeaders =
                (\<lambda>key. case Header_r resp key of Some (v # vs) \<Rightarrow> Some v | _ \<Rightarrow> None)
          in (Inr \<lparr>StatusCode = StatusCode_r resp, Body = bodyInterface,
                   Headers = responseHeaders, Duration_p = d\<rparr>, gp6)))))))"

subsection \<open>Health checks\<close>

text \<open>
  \<open>probe_request\<close> is the request that \<open>performHealthCheck\<close> builds and
  \<open>probe_result\<close> the \<open>HealthCheckResult\<close> that it fills in from the outcome of
  \<open>httpClient.Do\<close>. \<open>performHealthCheck\<close> returns the pointer to the
  result it stored, or an error and no result when the probe request cannot be built.
\<close>

definition probe_request :: "call_env \<Rightarrow> ServiceInfo \<Rightarrow> Request" where
  "probe_request env serviceInfo =
     \<lparr>Method = ''GET'', URL_r = HealthCheck serviceInfo, Body_r = [],
      Header = Header_Set env ''X-Gateway-Service'' ''gateway''
                 (Header_Set env ''X-Health-Check'' ''true'' Map.empty),
      Timeout_r = Timeout serviceInfo\<rparr>"

definition probe_result :: "call_env \<Rightarrow> string \<Rightarrow> ServiceInfo \<Rightarrow> string + Response \<Rightarrow> HealthCheckResult" where
  "probe_result env service serviceInfo outcome =
     (let result = \<lparr>Service = service, Status = [], URL_h = HealthCheck serviceInfo,
                     Duration = elapsed env, Error = [], Timestamp = startTime env\<rparr>
      in case outcome of
           Inl e \<Rightarrow> result\<lparr>Status := ''unhealthy'', Error := e\<rparr>
         | Inr resp \<Rightarrow>
             if StatusCode_r resp = 200 then result\<lparr>Status := ''healthy''\<rparr>
             else result\<lparr>Status := ''unhealthy'',
                         Error := ''status code: '' @ Itoa (StatusCode_r resp)\<rparr>)"

definition performHealthCheck :: "call_env \<Rightarrow> string \<Rightarrow> ServiceInfo \<Rightarrow> 'f GatewayProcessor \<Rightarrow> (error + addr) \<times> 'f GatewayProcessor" where
  "performHealthCheck env service serviceInfo gp =
     (case NewRequest env ''GET'' (HealthCheck serviceInfo) of
        Some e \<Rightarrow> (Inl (CreateHealthRequestFailed e), gp)
      | None \<Rightarrow>
        (let req = probe_request env serviceInfo;
             gp1 = gp\<lparr>httpClient := httpClient gp @ [req]\<rparr>;
             d = elapsed env;
             result = probe_result env service serviceInfo (Do env req);
             a = new_hc result (heap gp1);
             gp2 = gp1\<lparr>healthStats := AList.update service (fst a) (healthStats gp1),
                       metrics := (metrics gp1)\<lparr>HealthStats :=
                                     AList.update service (fst a) (HealthStats (metrics gp1))\<rparr>,
                       heap := snd a\<rparr>;
             status = (if Status result = ''healthy'' then 1 else 0);
             gp3 = logMetrics ''health_check'' service ''GET'' ''/health'' d status [] []
                     [''health_status'' \<mapsto> FStr (Status result), ''health_error'' \<mapsto> FStr (Error result)]
                     gp2
         in (Inr (fst a), gp3)))"

definition CheckServiceHealth :: "call_env \<Rightarrow> string \<Rightarrow> 'f GatewayProcessor \<Rightarrow> (error + addr) \<times> 'f GatewayProcessor" where
  "CheckServiceHealth env service gp =
     (case map_of (services gp) service of
        None \<Rightarrow> (Inl (ServiceNotFound service), gp)
      | Some serviceInfo \<Rightarrow> performHealthCheck env service serviceInfo gp)"

text \<open>
  \<open>checkAllServices\<close> starts one probe per registered service and waits for all of
  them; what each probe returns is dropped. Every probe writes under the processor's
  lock, so the sweep is modelled as the probes run one after the other in the order of
  the list; \<open>envs s\<close> is what the probe of service \<open>s\<close> meets.
\<close>

definition checkAllServices :: "(string \<Rightarrow> call_env) \<Rightarrow> 'f GatewayProcessor \<Rightarrow> 'f GatewayProcessor" where
  "checkAllServices envs gp =
     (let svcs = services gp;
          gp1 = fold (\<lambda>e g. snd (performHealthCheck (envs (fst e)) (fst e) (snd e) g)) svcs gp;
          healthy = int (length (filter (\<lambda>e. Status (hc_cells (heap gp1) (snd e)) = ''healthy'')
                                  (healthStats gp1)));
          total = int (length svcs)
      in gp1\<lparr>redis := redis gp1 @
           [PublishLog ''info'' ''gateway''
              (''Health check completed: '' @ Itoa healthy @ ''/'' @ Itoa total @ '' services healthy'')
              [''healthy_count'' \<mapsto> FInt healthy, ''total_count'' \<mapsto> FInt total]]\<rparr>)"

subsection \<open>Snapshot\<close>

text \<open>
  \<open>GetMetrics\<close> builds a new \<open>GatewayMetrics\<close> and, for every entry of the two maps, a
  new struct with the fields of the live one. It returns the new value and the
  processor with the enlarged heap.
\<close>

definition copy_sm :: "string \<times> addr \<Rightarrow> (string \<times> addr) list \<times> 'f Heap \<Rightarrow> (string \<times> addr) list \<times> 'f Heap" where
  "copy_sm e acc =
     (let h = snd acc; m = sm_cells h (snd e);
          a = new_sm \<lparr>TotalRequests_s = TotalRequests_s m, SuccessRequests_s = SuccessRequests_s m,
                      ErrorRequests_s = ErrorRequests_s m, AverageLatency_s = AverageLatency_s m,
                      LastRequest = LastRequest m\<rparr> h
      in (AList.update (fst e) (fst a) (fst acc), snd a))"

definition copy_hc :: "string \<times> addr \<Rightarrow> (string \<times> addr) list \<times> 'f Heap \<Rightarrow> (string \<times> addr) list \<times> 'f Heap" where
  "copy_hc e acc =
     (let h = snd acc; healthCopy = hc_cells h (snd e); a = new_hc healthCopy h
      in (AList.update (fst e) (fst a) (fst acc), snd a))"

definition GetMetrics :: "'f GatewayProcessor \<Rightarrow> 'f GatewayMetrics \<times> 'f GatewayProcessor" where
  "GetMetrics gp =
     (let m = metrics gp;
          r1 = fold copy_sm (ServiceMetrics m) ([], heap gp);
          r2 = fold copy_hc (HealthStats m) ([], snd r1)
      in (\<lparr>TotalRequests = TotalRequests m, SuccessRequests = SuccessRequests m,
           ErrorRequests = ErrorRequests m, AverageLatency = AverageLatency m,
           ServiceMetrics = fst r1, HealthStats = fst r2, StartTime = StartTime m\<rparr>,
          gp\<lparr>heap := snd r2\<rparr>))"

section \<open>Proxy handler (handlers/gateway_handler.go)\<close>

text \<open>\<open>strings.ToLower\<close> on header names, which are ASCII.\<close>

definition toLower_byte :: "char \<Rightarrow> char" where
  "toLower_byte c =
     (case map_of (zip ''ABCDEFGHIJKLMNOPQRSTUVWXYZ'' ''abcdefghijklmnopqrstuvwxyz'') c of
        Some l \<Rightarrow> l
      | None \<Rightarrow> c)"

definition ToLower :: "string \<Rightarrow> string" where
  "ToLower s = map toLower_byte s"

definition isSystemHeader :: "string \<Rightarrow> bool" where
  "isSystemHeader header =
     (let systemHeaders = [''Authorization'', ''Content-Length'', ''Content-Type'', ''Host'',
                           ''User-Agent'', ''Accept-Encoding'', ''Connection''];
          h = ToLower header
      in list_ex (\<lambda>sys. ToLower sys = h) systemHeaders)"

text \<open>
  The header loop of \<open>Proxy\<close> and \<open>ProxyToService\<close>: \<open>rHeader\<close> is \<open>r.Header\<close>, the
  result is the \<open>headers\<close> argument of \<open>ProxyRequest\<close>.
\<close>

definition Proxy_headers :: "(string \<times> string list) list \<Rightarrow> (string \<times> string) list" where
  "Proxy_headers rHeader =
     fold (\<lambda>kv headers.
             if length (snd kv) > 0 \<and> \<not> isSystemHeader (fst kv)
             then AList.update (fst kv) (hd (snd kv)) headers
             else headers)
          rHeader []"

section \<open>Token validation over Redis streams (middleware)\<close>

record User =
  ID :: string
  Email :: string
  Role :: string

record AuthValidationRequest =
  RequestID :: string
  Token :: string
  Timestamp_q :: int

record AuthValidationResponse =
  RequestID_a :: string
  Valid :: bool
  User_a :: "User option"
  Error_a :: string

datatype redis_value = Str string | Other

record XMessage =
  ID_m :: string
  Values :: "string \<rightharpoonup> redis_value"

record XStream =
  Stream :: string
  Messages :: "XMessage list"

text \<open>The commands sent to Redis; \<open>XReadGroup\<close> carries group, consumer, streams, count and block time.\<close>

datatype redis_cmd =
  XAdd string string
| XGroupCreateMkStream string string string
| XReadGroup string string "string list" int duration
| XAck string string string

datatype read_result = RedisNil | ReadError string | ReadStreams "XStream list"

datatype auth_error =
  MarshalFailed string
| SendFailed string
| AuthTimeout
| ReadFailed string
| InvalidToken string
| NoResponse

text \<open>
  What one validation meets: the generated uuid, the clock, the JSON codec and the
  answers of Redis. \<open>XReadGroup_result\<close> is what the blocking read returns:
  \<open>RedisNil\<close> when the block time passes with no message, an error, or the messages
  delivered to this consumer.
\<close>

record auth_env =
  uuid :: string
  unix_now :: int
  Marshal :: "AuthValidationRequest \<Rightarrow> string + string"
  XAdd_result :: "string option"
  XReadGroup_result :: read_result
  Unmarshal :: "string \<Rightarrow> AuthValidationResponse option"

text \<open>
  The two nested loops over streams and messages return at the first message whose
  decoded \<open>RequestID\<close> is ours; \<open>find_response\<close> walks the messages of all streams in
  order and gives that message and its decoded response.
\<close>

fun find_response :: "auth_env \<Rightarrow> string \<Rightarrow> XMessage list \<Rightarrow> (XMessage \<times> AuthValidationResponse) option" where
  "find_response env rid [] = None"
| "find_response env rid (message # ms) =
     (case Values message ''data'' of
        Some (Str d) \<Rightarrow>
          (case Unmarshal env d of
             None \<Rightarrow> find_response env rid ms
           | Some response \<Rightarrow>
               if RequestID_a response = rid then Some (message, response)
               else find_response env rid ms)
      | _ \<Rightarrow> find_response env rid ms)"

definition validateTokenViaRedis :: "auth_env \<Rightarrow> string \<Rightarrow> (auth_error + User option) \<times> redis_cmd list" where
  "validateTokenViaRedis env token =
     (let rid = uuid env;
          request = \<lparr>RequestID = rid, Token = token, Timestamp_q = unix_now env\<rparr>
      in case Marshal env request of
           Inl e \<Rightarrow> (Inl (MarshalFailed e), [])
         | Inr requestData \<Rightarrow>
         (let c1 = [XAdd ''auth-requests'' requestData]
          in case XAdd_result env of
           Some e \<Rightarrow> (Inl (SendFailed e), c1)
         | None \<Rightarrow>
         (let timeout = 5 * 1000000000;
              consumerGroup = ''gateway-auth'';
              consumerName = ''gateway-'' @ take 8 rid;
              c2 = c1 @ [XGroupCreateMkStream ''auth-responses'' consumerGroup ''0'',
                         XReadGroup consumerGroup consumerName [''auth-responses'', ''>''] 1 timeout]
          in case XReadGroup_result env of
           RedisNil \<Rightarrow> (Inl AuthTimeout, c2)
         | ReadError e \<Rightarrow> (Inl (ReadFailed e), c2)
         | ReadStreams streams \<Rightarrow>
             (case find_response env rid (concat (map Messages streams)) of
                Some (message, response) \<Rightarrow>
                  (let c3 = c2 @ [XAck ''auth-responses'' consumerGroup (ID_m message)]
                   in if \<not> Valid response then (Inl (InvalidToken (Error_a response)), c3)
                      else (Inr (User_a response), c3))
              | None \<Rightarrow> (Inl NoResponse, c2)))))"

section \<open>Runs of the processor\<close>

text \<open>
  The writers of the metrics and health state, as steps: the two metric updates that
  \<open>ProxyRequest\<close> performs and one health probe. All of them run under a lock, so a
  concurrent execution is some sequence of these steps.
\<close>

datatype mutation =
  RecordRequest time string bool
| RecordLatency string duration
| Probe call_env string ServiceInfo

fun mutate :: "'f float64_ops \<Rightarrow> mutation \<Rightarrow> 'f GatewayProcessor \<Rightarrow> 'f GatewayProcessor" where
  "mutate F (RecordRequest now service success) gp = updateRequestMetrics now service success gp"
| "mutate F (RecordLatency service d) gp = updateLatencyMetrics F service d gp"
| "mutate F (Probe env service serviceInfo) gp = snd (performHealthCheck env service serviceInfo gp)"

text \<open>\<open>total = success + error\<close>, globally and in every per-service entry.\<close>

definition counters_consistent :: "'f GatewayProcessor \<Rightarrow> bool" where
  "counters_consistent gp =
     (TotalRequests (metrics gp) = SuccessRequests (metrics gp) + ErrorRequests (metrics gp) \<and>
      list_all (\<lambda>e. TotalRequests_s (sm_cells (heap gp) (snd e)) =
                     SuccessRequests_s (sm_cells (heap gp) (snd e)) +
                     ErrorRequests_s (sm_cells (heap gp) (snd e)))
               (ServiceMetrics (metrics gp)))"

text \<open>
  What a \<open>GatewayMetrics\<close> value shows to a reader in a given heap: its own fields and,
  behind every pointer of its two maps, the struct found there.
\<close>

definition contents :: "'f Heap \<Rightarrow> 'f GatewayMetrics \<Rightarrow>
    (64 word \<times> 64 word \<times> 64 word \<times> 'f \<times> time) \<times>
    (string \<times> 'f ServiceMetrics) list \<times> (string \<times> HealthCheckResult) list" where
  "contents h m =
     ((TotalRequests m, SuccessRequests m, ErrorRequests m, AverageLatency m, StartTime m),
      map (\<lambda>e. (fst e, sm_cells h (snd e))) (ServiceMetrics m),
      map (\<lambda>e. (fst e, hc_cells h (snd e))) (HealthStats m))"

text \<open>
  The representation invariant of a processor: map keys are distinct and every pointer
  held by the live maps has been allocated.
\<close>

definition well_formed :: "'f GatewayProcessor \<Rightarrow> bool" where
  "well_formed gp =
     (distinct (map fst (services gp)) \<and>
      distinct (map fst (healthStats gp)) \<and>
      distinct (map fst (ServiceMetrics (metrics gp))) \<and>
      distinct (map fst (HealthStats (metrics gp))) \<and>
      list_all (\<lambda>e. snd e < nextAddr (heap gp))
        (healthStats gp @ ServiceMetrics (metrics gp) @ HealthStats (metrics gp)))"

section \<open>Example inputs\<close>

text \<open>
  One registered service, a processor started with it, and an environment in which
  request construction succeeds and the upstream gives the stated outcome. The header
  canonicalisation is the standard library's on the keys that occur.
\<close>

definition echo_info :: ServiceInfo where
  "echo_info = \<lparr>URL = ''http://localhost:9000'', HealthCheck = ''http://localhost:9000/health'',
                 Timeout = 5\<rparr>"

definition example_gp :: "real GatewayProcessor" where
  "example_gp =
     Start exact_ops (\<lambda>_. ''2024-01-01T00:00:00Z'') 0 [(''echo'', echo_info)]
       (NewGatewayProcessor exact_ops 0)"

definition example_canon :: "string \<Rightarrow> string" where
  "example_canon k =
     (if k = ''X-Request-ID'' then ''X-Request-Id''
      else if k = ''X-User-ID'' then ''X-User-Id'' else k)"

definition example_env :: "string + Response \<Rightarrow> call_env" where
  "example_env outcome =
     \<lparr>startTime = 1000, metricsTime1 = 1001, metricsTime2 = 9000, elapsed = 7000000,
      requestID = ''3f2b8c1e-0000-4000-8000-000000000001'',
      NewRequest = (\<lambda>method url. None),
      Do = (\<lambda>req. outcome),
      CanonicalMIMEHeaderKey = example_canon,
      RFC3339 = (\<lambda>t. ''2024-01-01T00:00:00Z''),
      json_valid = (\<lambda>b. False)\<rparr>"

definition response_500 :: Response where
  "response_500 = \<lparr>StatusCode_r = 500, Header_r = Map.empty, Body_resp = Inr ''boom''\<rparr>"

text \<open>
  A validation whose request is published, with a codec that decodes the payload
  \<open>other\<close> to a valid response for another request id.
\<close>

definition example_auth_env :: "read_result \<Rightarrow> auth_env" where
  "example_auth_env outcome =
     \<lparr>uuid = ''3f2b8c1e-0000-4000-8000-000000000001'',
      unix_now = 1700000000,
      Marshal = (\<lambda>request. Inr (RequestID request @ ''|'' @ Token request)),
      XAdd_result = None,
      XReadGroup_result = outcome,
      Unmarshal = (\<lambda>d. if d = ''other''
                       then Some \<lparr>RequestID_a = ''77777777-0000-4000-8000-000000000002'',
                                   Valid = True,
                                   User_a = Some \<lparr>ID = ''42'', Email = ''eve@example.org'',
                                                   Role = ''admin''\<rparr>,
                                   Error_a = []\<rparr>
                       else None)\<rparr>"

definition other_reply :: "XStream list" where
  "other_reply =
     [\<lparr>Stream = ''auth-responses'',
       Messages = [\<lparr>ID_m = ''1700000000000-0'', Values = [''data'' \<mapsto> Str ''other'']\<rparr>]\<rparr>]"

text \<open>
  A processor with two services, the first with a health URL that cannot be parsed, and
  the environment of a sweep in which request construction fails for that URL and the
  upstream of every other probe refuses the connection.
\<close>

definition broken_info :: ServiceInfo where
  "broken_info = \<lparr>URL = ''http://bad host:9001'', HealthCheck = ''http://bad host:9001/health'',
                   Timeout = 5\<rparr>"

definition example_gp2 :: "real GatewayProcessor" where
  "example_gp2 =
     Start exact_ops (\<lambda>_. ''2024-01-01T00:00:00Z'') 0
       [(''broken'', broken_info), (''echo'', echo_info)]
       (NewGatewayProcessor exact_ops 0)"

definition sweep_env :: "string \<Rightarrow> call_env" where
  "sweep_env service =
     (example_env (Inl ''connection refused''))
       \<lparr>NewRequest := (\<lambda>method url.
            if url = ''http://bad host:9001/health'' then Some ''invalid character in host name''
            else None)\<rparr>"

section \<open>Rate limiter: lemmas\<close>

lemma int_wrap_id: "- (2 ^ 63) \<le> x \<Longrightarrow> x < 2 ^ 63 \<Longrightarrow> int_wrap x = x"
  by (simp add: int_wrap_def)

lemma allow_lastRefill: "lastRefill (snd (allow F now r b cl)) = now"
  by (simp add: allow_def Let_def)

lemma allow_take:
  assumes "tokensToAdd F (now - lastRefill cl) r = 0" "0 < tokens cl" "tokens cl \<le> b" "b < 2 ^ 63"
  shows "allow F now r b cl = (True, \<lparr>tokens = tokens cl - 1, lastRefill = now\<rparr>)"
  using assms by (simp add: allow_def Let_def int_wrap_id)

lemma allow_empty:
  assumes "tokensToAdd F (now - lastRefill cl) r = 0" "tokens cl = 0" "0 \<le> b"
  shows "allow F now r b cl = (False, \<lparr>tokens = 0, lastRefill = now\<rparr>)"
  using assms by (simp add: allow_def Let_def int_wrap_id)

lemma allow_seq_append:
  "allow_seq F r b cl (xs @ ys) =
     (fst (allow_seq F r b cl xs) @ fst (allow_seq F r b (snd (allow_seq F r b cl xs)) ys),
      snd (allow_seq F r b (snd (allow_seq F r b cl xs)) ys))"
  by (induction xs arbitrary: cl) (simp_all add: Let_def)

lemma allow_seq_burst:
  assumes z: "tokensToAdd F 0 r = 0" and b: "b < 2 ^ 63"
  shows "int k \<le> b \<Longrightarrow>
     allow_seq F r b \<lparr>tokens = int k, lastRefill = t\<rparr> (replicate k t) =
       (replicate k True, \<lparr>tokens = 0, lastRefill = t\<rparr>)"
proof (induction k)
  case 0
  then show ?case by simp
next
  case (Suc k)
  have "allow F t r b \<lparr>tokens = int (Suc k), lastRefill = t\<rparr> =
          (True, \<lparr>tokens = int k, lastRefill = t\<rparr>)"
    using allow_take [of F t "\<lparr>tokens = int (Suc k), lastRefill = t\<rparr>" r b] z b Suc.prems
    by simp
  then show ?case using Suc by (simp add: Let_def)
qed

lemma Allow_seq_Some:
  "clients rl c = Some cl \<Longrightarrow>
     fst (Allow_seq F rl c ts) = fst (allow_seq F (rpm rl) (burst rl) cl ts)"
proof (induction ts arbitrary: rl cl)
  case Nil
  then show ?case by simp
next
  case (Cons t ts)
  let ?rl = "snd (Allow F t t rl c)"
  have 1: "clients ?rl c = Some (snd (allow F t (rpm rl) (burst rl) cl))"
    and 2: "rpm ?rl = rpm rl" and 3: "burst ?rl = burst rl"
    and 4: "fst (Allow F t t rl c) = fst (allow F t (rpm rl) (burst rl) cl)"
    using Cons.prems by (simp_all add: Allow_def Let_def)
  show ?case using Cons.IH [OF 1] 2 3 4 by (simp add: Let_def)
qed

lemma Allow_seq_None:
  assumes "clients rl c = None"
  shows "fst (Allow_seq F rl c (t # ts)) =
     fst (allow_seq F (rpm rl) (burst rl) \<lparr>tokens = burst rl, lastRefill = t\<rparr> (t # ts))"
proof -
  let ?cl = "\<lparr>tokens = burst rl, lastRefill = t\<rparr>"
  let ?rl = "snd (Allow F t t rl c)"
  have 1: "clients ?rl c = Some (snd (allow F t (rpm rl) (burst rl) ?cl))"
    and 2: "rpm ?rl = rpm rl" and 3: "burst ?rl = burst rl"
    and 4: "fst (Allow F t t rl c) = fst (allow F t (rpm rl) (burst rl) ?cl)"
    using assms by (simp_all add: Allow_def Let_def)
  show ?thesis using Allow_seq_Some [OF 1, of F ts] 2 3 4 by (simp add: Let_def)
qed

lemma allow_starved_step:
  assumes "tokensToAdd F (now - lastRefill cl) r = 0" "tokens cl \<le> 0" "- (2 ^ 63) \<le> tokens cl"
    "- (2 ^ 63) \<le> b"
  shows "fst (allow F now r b cl) = False \<and> tokens (snd (allow F now r b cl)) \<le> 0 \<and>
         - (2 ^ 63) \<le> tokens (snd (allow F now r b cl))"
  using assms by (simp add: allow_def Let_def int_wrap_id)

lemma allow_seq_starved:
  assumes F: "\<forall>e. 0 \<le> e \<and> e * r < 60000000000 \<longrightarrow> tokensToAdd F e r = 0"
    and b: "- (2 ^ 63) \<le> b"
  shows "tokens cl \<le> 0 \<Longrightarrow> - (2 ^ 63) \<le> tokens cl \<Longrightarrow> spaced r (lastRefill cl) ts \<Longrightarrow>
         fst (allow_seq F r b cl ts) = replicate (length ts) False \<and>
         tokens (snd (allow_seq F r b cl ts)) \<le> 0"
proof (induction ts arbitrary: cl)
  case Nil
  then show ?case by simp
next
  case (Cons t ts)
  let ?cl = "snd (allow F t r b cl)"
  have z: "tokensToAdd F (t - lastRefill cl) r = 0" using F Cons.prems(3) by simp
  note s = allow_starved_step [OF z Cons.prems(1,2) b]
  have "spaced r (lastRefill ?cl) ts" using Cons.prems(3) by (simp add: allow_lastRefill)
  from Cons.IH [OF _ _ this] s show ?case by (simp add: Let_def)
qed

lemma exact_below_one:
  assumes "0 \<le> e" "e * r < 60000000000" "0 \<le> r"
  shows "tokensToAdd exact_ops e r = 0"
proof -
  have "real_of_int (e * r) < 60000000000" using assms(2) by linarith
  then have "real_of_int e * real_of_int r / (1000000000 * 60) < 1" by simp
  moreover have "0 \<le> real_of_int e * real_of_int r / (1000000000 * 60)" using assms by simp
  ultimately show ?thesis
    by (simp add: tokensToAdd_def exact_ops_def floor_eq_iff)
qed

section \<open>Rate limiter: claims\<close>

text \<open>
  C5, as amended. For a client the limiter has not seen, with \<open>burst = N \<ge> 1\<close>: \<open>N\<close>
  consecutive calls at one instant are admitted and the next one at that instant is
  rejected; after a wait \<open>w\<close> whose truncated refill is exactly one token (the refill of
  zero elapsed time being zero), one further call is admitted and the next is rejected.
  In exact arithmetic \<open>w\<close> is \<open>60 / rpm\<close> seconds.
\<close>

theorem burst_then_refill:
  assumes new: "clients rl c = None"
    and N: "1 \<le> burst rl" "burst rl < 2 ^ 63"
    and z: "tokensToAdd F 0 (rpm rl) = 0"
    and w: "tokensToAdd F w (rpm rl) = 1"
  shows "fst (Allow_seq F rl c (replicate (nat (burst rl)) t0 @ [t0] @ [t0 + w, t0 + w])) =
           replicate (nat (burst rl)) True @ [False] @ [True, False]"
proof -
  let ?N = "nat (burst rl)" and ?r = "rpm rl" and ?b = "burst rl"
  let ?c0 = "\<lparr>tokens = burst rl, lastRefill = t0\<rparr>"
  let ?e = "\<lparr>tokens = 0, lastRefill = t0\<rparr>"
  obtain k where k: "?N = Suc k" using N by (cases ?N) auto
  have b0: "0 \<le> ?b" using N by simp
  have c0: "?c0 = \<lparr>tokens = int ?N, lastRefill = t0\<rparr>" using N by simp
  have A: "allow_seq F ?r ?b ?c0 (replicate ?N t0) = (replicate ?N True, ?e)"
    unfolding c0 using allow_seq_burst [OF z N(2), of ?N t0] N by simp
  have B: "allow F t0 ?r ?b ?e = (False, ?e)"
    using allow_empty [of F t0 ?e ?r ?b] z b0 by simp
  have C: "allow F (t0 + w) ?r ?b ?e = (True, \<lparr>tokens = 0, lastRefill = t0 + w\<rparr>)"
    using w N by (simp add: allow_def Let_def int_wrap_id)
  have D: "allow F (t0 + w) ?r ?b \<lparr>tokens = 0, lastRefill = t0 + w\<rparr> =
             (False, \<lparr>tokens = 0, lastRefill = t0 + w\<rparr>)"
    using allow_empty [of F "t0 + w" "\<lparr>tokens = 0, lastRefill = t0 + w\<rparr>" ?r ?b] z b0 by simp
  have "fst (allow_seq F ?r ?b ?c0 (replicate ?N t0 @ [t0] @ [t0 + w, t0 + w])) =
          replicate ?N True @ [False] @ [True, False]"
    by (simp add: allow_seq_append [of F ?r ?b ?c0 "replicate ?N t0"] A B C D Let_def)
  moreover have "replicate ?N t0 @ [t0] @ [t0 + w, t0 + w] =
                   t0 # (replicate k t0 @ [t0] @ [t0 + w, t0 + w])"
    using k by simp
  ultimately show ?thesis
    using Allow_seq_None [OF new, of F t0 "replicate k t0 @ [t0] @ [t0 + w, t0 + w]"] by simp
qed

text \<open>Burst 3 at 60 requests per minute: three admitted, one rejected, and after one second one more.\<close>

theorem burst_then_refill_witness:
  "fst (Allow_seq exact_ops (NewRateLimiter 60 3) ''10.0.0.1''
          [0, 0, 0, 0, 1000000000, 1000000000]) =
     [True, True, True, False, True, False]"
proof -
  let ?rl = "NewRateLimiter 60 3"
  have b: "burst ?rl = 3" and r: "rpm ?rl = 60" and c: "clients ?rl ''10.0.0.1'' = None"
    by (simp_all add: NewRateLimiter_def)
  have h1: "1 \<le> burst ?rl" and h2: "burst ?rl < 2 ^ 63" by (simp_all add: b)
  have z: "tokensToAdd exact_ops 0 (rpm ?rl) = 0"
    and w: "tokensToAdd exact_ops 1000000000 (rpm ?rl) = 1"
    by (simp_all add: r tokensToAdd_def exact_ops_def)
  have l: "replicate (nat 3) (0::int) @ [0] @ [0 + 1000000000, 0 + 1000000000] =
            [0, 0, 0, 0, 1000000000, 1000000000]"
    and l': "replicate (nat 3) True @ [False] @ [True, False] =
             [True, True, True, False, True, False]"
    by (simp_all add: numeral_3_eq_3)
  show ?thesis
    using burst_then_refill [OF c h1 h2 z w, of 0] unfolding b l l' .
qed

text \<open>
  With \<open>burst = 0\<close> the claim as written expects the answers \<open>[False, True, False]\<close>:
  the cap at \<open>burst\<close> throws the refilled token away and the call after the wait is
  rejected as well.
\<close>

theorem burst_zero_counterexample:
  "fst (Allow_seq exact_ops (NewRateLimiter 60 0) ''10.0.0.1'' [0, 1000000000, 1000000000]) =
     [False, False, False]"
proof -
  let ?c = "''10.0.0.1''"
  let ?rl = "NewRateLimiter 60 0"
  have b: "burst ?rl = 0" and r: "rpm ?rl = 60" and c: "clients ?rl ?c = None"
    by (simp_all add: NewRateLimiter_def)
  have 1: "allow exact_ops 0 60 0 \<lparr>tokens = 0, lastRefill = 0\<rparr> =
             (False, \<lparr>tokens = 0, lastRefill = 0\<rparr>)"
    by (simp add: allow_def tokensToAdd_def exact_ops_def Let_def int_wrap_def)
  have 2: "allow exact_ops 1000000000 60 0 \<lparr>tokens = 0, lastRefill = 0\<rparr> =
             (False, \<lparr>tokens = 0, lastRefill = 1000000000\<rparr>)"
    by (simp add: allow_def tokensToAdd_def exact_ops_def Let_def int_wrap_def)
  have 3: "allow exact_ops 1000000000 60 0 \<lparr>tokens = 0, lastRefill = 1000000000\<rparr> =
             (False, \<lparr>tokens = 0, lastRefill = 1000000000\<rparr>)"
    by (simp add: allow_def tokensToAdd_def exact_ops_def Let_def int_wrap_def)
  show ?thesis
    unfolding Allow_seq_None [OF c] b r by (simp add: 1 2 3 Let_def)
qed

text \<open>
  C6, as amended. For a client the limiter has not seen and a configuration with
  \<open>burst \<ge> 1\<close>, the first call is admitted and leaves a record with \<open>burst - 1\<close> tokens,
  provided the refill computed for the time between creating the record and checking
  it is not negative and does not overflow the token counter.
\<close>

theorem first_request_admitted:
  assumes "clients rl c = None" "1 \<le> burst rl"
    "0 \<le> tokensToAdd F (now - tnew) (rpm rl)"
    "burst rl + tokensToAdd F (now - tnew) (rpm rl) < 2 ^ 63"
  shows "fst (Allow F tnew now rl c) \<and>
         clients (snd (Allow F tnew now rl c)) c =
           Some \<lparr>tokens = burst rl - 1, lastRefill = now\<rparr>"
  using assms by (simp add: Allow_def allow_def Let_def int_wrap_id)

theorem first_request_admitted_witness:
  "fst (Allow exact_ops 0 250 (NewRateLimiter 100 20) ''10.0.0.1'') \<and>
   clients (snd (Allow exact_ops 0 250 (NewRateLimiter 100 20) ''10.0.0.1'')) ''10.0.0.1'' =
     Some \<lparr>tokens = 19, lastRefill = 250\<rparr>"
proof -
  let ?rl = "NewRateLimiter 100 20"
  have b: "burst ?rl = 20" and r: "rpm ?rl = 100" and c: "clients ?rl ''10.0.0.1'' = None"
    by (simp_all add: NewRateLimiter_def)
  have t: "tokensToAdd exact_ops 250 (rpm ?rl) = 0"
    unfolding r by (simp add: tokensToAdd_def exact_ops_def)
  have h1: "1 \<le> burst ?rl" by (simp add: b)
  have h2: "0 \<le> tokensToAdd exact_ops (250 - 0) (rpm ?rl)" by (simp add: t)
  have h3: "burst ?rl + tokensToAdd exact_ops (250 - 0) (rpm ?rl) < 2 ^ 63" by (simp add: t b)
  show ?thesis
    using first_request_admitted [OF c h1 h2 h3] by (simp add: b)
qed

text \<open>With \<open>burst = 0\<close> the first call of a new client is rejected.\<close>

theorem first_request_zero_burst_counterexample:
  "\<not> fst (Allow exact_ops 0 0 (NewRateLimiter 100 0) ''10.0.0.1'')"
  by (simp add: Allow_def NewRateLimiter_def allow_def tokensToAdd_def exact_ops_def Let_def
      int_wrap_def)

text \<open>
  C10. Every call of \<open>allow\<close> sets \<open>lastRefill\<close> to the current time, whatever the refill
  was. So for a client whose bucket is empty, when the truncated refill of every gap
  shorter than \<open>60 / rpm\<close> seconds is zero, every call of a run in which each call comes
  less than \<open>60 / rpm\<close> seconds after the previous one is rejected, however long the
  run lasts in total.
\<close>

theorem starved_bucket_stays_empty:
  assumes F: "\<forall>e. 0 \<le> e \<and> e * rpm rl < 60000000000 \<longrightarrow> tokensToAdd F e (rpm rl) = 0"
    and c: "clients rl c = Some cl" and e: "tokens cl = 0"
    and b: "- (2 ^ 63) \<le> burst rl"
    and s: "spaced (rpm rl) (lastRefill cl) ts"
  shows "lastRefill (snd (allow F now r' b' cl')) = now \<and>
         fst (Allow_seq F rl c ts) = replicate (length ts) False"
proof -
  have "fst (allow_seq F (rpm rl) (burst rl) cl ts) = replicate (length ts) False"
    using allow_seq_starved [OF F b _ _ s] e by simp
  then show ?thesis using Allow_seq_Some [OF c, of F ts] by (simp add: allow_lastRefill)
qed

text \<open>
  At 60 requests per minute a token takes one second; four calls 0.9 seconds apart
  span 3.6 seconds and are all rejected.
\<close>

theorem starved_bucket_stays_empty_witness:
  "lastRefill (snd (allow exact_ops 7 60 5 \<lparr>tokens = 0, lastRefill = 0\<rparr>)) = 7 \<and>
   fst (Allow_seq exact_ops
          \<lparr>clients = [''10.0.0.1'' \<mapsto> \<lparr>tokens = 0, lastRefill = 0\<rparr>], rpm = 60, burst = 5\<rparr>
          ''10.0.0.1'' [900000000, 1800000000, 2700000000, 3600000000]) =
     [False, False, False, False]"
proof -
  let ?cl = "\<lparr>tokens = 0, lastRefill = 0\<rparr>"
  let ?rl = "\<lparr>clients = [''10.0.0.1'' \<mapsto> ?cl], rpm = 60, burst = 5\<rparr>"
  let ?ts = "[900000000, 1800000000, 2700000000, 3600000000] :: int list"
  have F: "\<forall>e. 0 \<le> e \<and> e * rpm ?rl < 60000000000 \<longrightarrow> tokensToAdd exact_ops e (rpm ?rl) = 0"
    using exact_below_one [of _ "rpm ?rl"] by simp
  have c: "clients ?rl ''10.0.0.1'' = Some ?cl" by simp
  have e: "tokens ?cl = 0" by simp
  have b: "- (2 ^ 63) \<le> burst ?rl" by simp
  have s: "spaced (rpm ?rl) (lastRefill ?cl) ?ts" by simp
  have l: "replicate (length ?ts) False = [False, False, False, False]"
    by (simp add: numeral_eq_Suc)
  show ?thesis
    using starved_bucket_stays_empty [OF F c e b s, of 7 60 5 ?cl] unfolding l .
qed

section \<open>Gateway processor: counters and routing\<close>

lemma set_update_subset: "set (AList.update k v al) \<subseteq> insert (k, v) (set al)"
  by (induction al) auto

lemma updateRequestMetrics_frame:
  "services (updateRequestMetrics now s ok gp) = services gp"
  "healthStats (updateRequestMetrics now s ok gp) = healthStats gp"
  "redis (updateRequestMetrics now s ok gp) = redis gp"
  "httpClient (updateRequestMetrics now s ok gp) = httpClient gp"
  "ServiceMetrics (metrics (updateRequestMetrics now s ok gp)) = ServiceMetrics (metrics gp)"
  "HealthStats (metrics (updateRequestMetrics now s ok gp)) = HealthStats (metrics gp)"
  "hc_cells (heap (updateRequestMetrics now s ok gp)) = hc_cells (heap gp)"
  "nextAddr (heap (updateRequestMetrics now s ok gp)) = nextAddr (heap gp)"
  by (simp_all add: updateRequestMetrics_def Let_def split: option.splits)

lemma updateLatencyMetrics_frame:
  "services (updateLatencyMetrics F s d gp) = services gp"
  "healthStats (updateLatencyMetrics F s d gp) = healthStats gp"
  "redis (updateLatencyMetrics F s d gp) = redis gp"
  "httpClient (updateLatencyMetrics F s d gp) = httpClient gp"
  "ServiceMetrics (metrics (updateLatencyMetrics F s d gp)) = ServiceMetrics (metrics gp)"
  "HealthStats (metrics (updateLatencyMetrics F s d gp)) = HealthStats (metrics gp)"
  "hc_cells (heap (updateLatencyMetrics F s d gp)) = hc_cells (heap gp)"
  "nextAddr (heap (updateLatencyMetrics F s d gp)) = nextAddr (heap gp)"
  by (simp_all add: updateLatencyMetrics_def Let_def split: option.splits)

lemma updateLatencyMetrics_counters:
  "TotalRequests (metrics (updateLatencyMetrics F s d gp)) = TotalRequests (metrics gp)"
  "SuccessRequests (metrics (updateLatencyMetrics F s d gp)) = SuccessRequests (metrics gp)"
  "ErrorRequests (metrics (updateLatencyMetrics F s d gp)) = ErrorRequests (metrics gp)"
  "TotalRequests_s (sm_cells (heap (updateLatencyMetrics F s d gp)) a) = TotalRequests_s (sm_cells (heap gp) a)"
  "SuccessRequests_s (sm_cells (heap (updateLatencyMetrics F s d gp)) a) = SuccessRequests_s (sm_cells (heap gp) a)"
  "ErrorRequests_s (sm_cells (heap (updateLatencyMetrics F s d gp)) a) = ErrorRequests_s (sm_cells (heap gp) a)"
  by (simp_all add: updateLatencyMetrics_def Let_def split: option.splits)

lemma updateRequestMetrics_counters:
  "TotalRequests (metrics (updateRequestMetrics now s ok gp)) = TotalRequests (metrics gp) + 1"
  "SuccessRequests (metrics (updateRequestMetrics now s ok gp)) =
     SuccessRequests (metrics gp) + (if ok then 1 else 0)"
  "ErrorRequests (metrics (updateRequestMetrics now s ok gp)) =
     ErrorRequests (metrics gp) + (if ok then 0 else 1)"
  by (simp_all add: updateRequestMetrics_def Let_def split: option.splits)

lemma updateRequestMetrics_cell:
  assumes "map_of (ServiceMetrics (metrics gp)) s = Some a"
  shows
  "TotalRequests_s (sm_cells (heap (updateRequestMetrics now s ok gp)) a') =
     TotalRequests_s (sm_cells (heap gp) a') + (if a' = a then 1 else 0)"
  "SuccessRequests_s (sm_cells (heap (updateRequestMetrics now s ok gp)) a') =
     SuccessRequests_s (sm_cells (heap gp) a') + (if a' = a \<and> ok then 1 else 0)"
  "ErrorRequests_s (sm_cells (heap (updateRequestMetrics now s ok gp)) a') =
     ErrorRequests_s (sm_cells (heap gp) a') + (if a' = a \<and> \<not> ok then 1 else 0)"
  using assms by (simp_all add: updateRequestMetrics_def Let_def)

lemma updateRequestMetrics_cell_none:
  "map_of (ServiceMetrics (metrics gp)) s = None \<Longrightarrow>
     sm_cells (heap (updateRequestMetrics now s ok gp)) = sm_cells (heap gp)"
  by (simp add: updateRequestMetrics_def Let_def)

lemma logRequest_frame:
  "services (logRequest s m p u r gp) = services gp"
  "healthStats (logRequest s m p u r gp) = healthStats gp"
  "metrics (logRequest s m p u r gp) = metrics gp"
  "heap (logRequest s m p u r gp) = heap gp"
  "httpClient (logRequest s m p u r gp) = httpClient gp"
  by (simp_all add: logRequest_def)

lemma logMetrics_frame:
  "services (logMetrics t s m p d st u r md gp) = services gp"
  "healthStats (logMetrics t s m p d st u r md gp) = healthStats gp"
  "metrics (logMetrics t s m p d st u r md gp) = metrics gp"
  "heap (logMetrics t s m p d st u r md gp) = heap gp"
  "httpClient (logMetrics t s m p d st u r md gp) = httpClient gp"
  by (simp_all add: logMetrics_def)

text \<open>
  C7. For a service name that is not in the registry, \<open>ProxyRequest\<close> fails with the
  service-not-found error and hands no request to the HTTP client.
\<close>

theorem unregistered_service_no_call:
  assumes "map_of (services gp) service = None"
  shows "fst (ProxyRequest F env service path method body headers userID gp) =
           Inl (ServiceNotFound service) \<and>
         httpClient (snd (ProxyRequest F env service path method body headers userID gp)) =
           httpClient gp"
  using assms
  by (simp add: ProxyRequest_def Let_def updateRequestMetrics_frame logRequest_frame)

lemma performHealthCheck_metrics:
  "TotalRequests (metrics (snd (performHealthCheck env s si gp))) = TotalRequests (metrics gp)"
  "SuccessRequests (metrics (snd (performHealthCheck env s si gp))) = SuccessRequests (metrics gp)"
  "ErrorRequests (metrics (snd (performHealthCheck env s si gp))) = ErrorRequests (metrics gp)"
  "ServiceMetrics (metrics (snd (performHealthCheck env s si gp))) = ServiceMetrics (metrics gp)"
  "sm_cells (heap (snd (performHealthCheck env s si gp))) = sm_cells (heap gp)"
  "services (snd (performHealthCheck env s si gp)) = services gp"
  by (simp_all add: performHealthCheck_def Let_def new_hc_def logMetrics_def split: option.splits)

lemma counters_consistent_request:
  assumes "counters_consistent gp"
  shows "counters_consistent (updateRequestMetrics now s ok gp)"
proof (cases "map_of (ServiceMetrics (metrics gp)) s")
  case None
  with assms show ?thesis
    by (simp add: counters_consistent_def updateRequestMetrics_counters
        updateRequestMetrics_frame updateRequestMetrics_cell_none)
next
  case (Some a)
  with assms show ?thesis
    by (auto simp add: counters_consistent_def updateRequestMetrics_counters
        updateRequestMetrics_frame updateRequestMetrics_cell [OF Some] list_all_iff)
qed

lemma counters_consistent_latency:
  "counters_consistent gp \<Longrightarrow> counters_consistent (updateLatencyMetrics F s d gp)"
  by (simp add: counters_consistent_def updateLatencyMetrics_counters updateLatencyMetrics_frame)

lemma counters_consistent_probe:
  "counters_consistent gp \<Longrightarrow> counters_consistent (snd (performHealthCheck env s si gp))"
  by (simp add: counters_consistent_def performHealthCheck_metrics)

lemma counters_consistent_mutate:
  "counters_consistent gp \<Longrightarrow> counters_consistent (mutate F m gp)"
  by (cases m)
    (simp_all add: counters_consistent_request counters_consistent_latency counters_consistent_probe)

lemma counters_consistent_run:
  "counters_consistent gp \<Longrightarrow> counters_consistent (fold (mutate F) ms gp)"
  by (induction ms arbitrary: gp) (simp_all add: counters_consistent_mutate)

lemma counters_consistent_Start_entry:
  assumes "counters_consistent gp"
  shows "counters_consistent (Start_entry F e gp)"
proof -
  have "\<And>x. x \<in> set (AList.update (fst e) (nextAddr (heap gp)) (ServiceMetrics (metrics gp))) \<Longrightarrow>
          snd x = nextAddr (heap gp) \<or> x \<in> set (ServiceMetrics (metrics gp))"
    using set_update_subset [of "fst e" "nextAddr (heap gp)" "ServiceMetrics (metrics gp)"] by auto
  with assms show ?thesis
    by (auto simp add: counters_consistent_def Start_entry_def Let_def new_sm_def zero_sm_def
        list_all_iff)
qed

lemma counters_consistent_Start_fold:
  "counters_consistent gp \<Longrightarrow> counters_consistent (fold (Start_entry F) registry gp)"
  by (induction registry arbitrary: gp) (simp_all add: counters_consistent_Start_entry)

lemma counters_consistent_Start:
  "counters_consistent gp \<Longrightarrow> counters_consistent (Start F fmt now registry gp)"
  using counters_consistent_Start_fold [of gp F registry]
  by (simp add: Start_def Let_def counters_consistent_def)

lemma counters_consistent_New: "counters_consistent (NewGatewayProcessor F t0)"
  by (simp add: counters_consistent_def NewGatewayProcessor_def)

text \<open>
  C4. Starting from a new processor started with any registry, after every sequence of
  metric updates (and health probes, which also write under the processor) the total
  equals successes plus errors, for the global counters and for every per-service
  entry. A prefix of a sequence is a sequence, so this holds after each update.
\<close>

theorem total_is_success_plus_error:
  "counters_consistent
     (fold (mutate F) ms (Start F fmt now registry (NewGatewayProcessor F t0)))"
proof -
  have "counters_consistent (NewGatewayProcessor F t0)"
    by (rule counters_consistent_New)
  then have "counters_consistent (Start F fmt now registry (NewGatewayProcessor F t0))"
    by (rule counters_consistent_Start)
  then show ?thesis
    by (rule counters_consistent_run)
qed

lemma example_gp_fields:
  "services example_gp = [(''echo'', echo_info)]"
  "ServiceMetrics (metrics example_gp) = [(''echo'', 0)]"
  "healthStats example_gp = []"
  "HealthStats (metrics example_gp) = []"
  "TotalRequests (metrics example_gp) = 0"
  "SuccessRequests (metrics example_gp) = 0"
  "ErrorRequests (metrics example_gp) = 0"
  "sm_cells (heap example_gp) 0 = zero_sm exact_ops"
  "nextAddr (heap example_gp) = 1"
  "httpClient example_gp = []"
  by (simp_all add: example_gp_def Start_def Start_entry_def NewGatewayProcessor_def new_sm_def
      Let_def)

lemma ProxyRequest_response_counters:
  assumes "map_of (services gp) service = Some si" "read_body body = Inr bs"
    "NewRequest env method (URL si @ path) = None" "\<forall>r. Do env r = Inr resp"
    "Body_resp resp = Inr rb"
  shows
    "SuccessRequests (metrics (snd (ProxyRequest F env service path method body headers userID gp))) =
       SuccessRequests (metrics gp) + 1"
    "ErrorRequests (metrics (snd (ProxyRequest F env service path method body headers userID gp))) =
       ErrorRequests (metrics gp) +
         (if 200 \<le> StatusCode_r resp \<and> StatusCode_r resp < 400 then 0 else 1)"
    "TotalRequests (metrics (snd (ProxyRequest F env service path method body headers userID gp))) =
       TotalRequests (metrics gp) +
         (if 200 \<le> StatusCode_r resp \<and> StatusCode_r resp < 400 then 1 else 2)"
  using assms
  by (simp_all add: ProxyRequest_def Let_def updateRequestMetrics_frame logRequest_frame
      logMetrics_frame updateLatencyMetrics_counters updateRequestMetrics_counters)

lemma ProxyRequest_response_service_counters:
  assumes "map_of (services gp) service = Some si" "read_body body = Inr bs"
    "NewRequest env method (URL si @ path) = None" "\<forall>r. Do env r = Inr resp"
    "Body_resp resp = Inr rb"
    and a: "map_of (ServiceMetrics (metrics gp)) service = Some a"
  shows
    "SuccessRequests_s (sm_cells (heap (snd (ProxyRequest F env service path method body headers userID gp))) a) =
       SuccessRequests_s (sm_cells (heap gp) a) + 1"
    "ErrorRequests_s (sm_cells (heap (snd (ProxyRequest F env service path method body headers userID gp))) a) =
       ErrorRequests_s (sm_cells (heap gp) a) +
         (if 200 \<le> StatusCode_r resp \<and> StatusCode_r resp < 400 then 0 else 1)"
    "TotalRequests_s (sm_cells (heap (snd (ProxyRequest F env service path method body headers userID gp))) a) =
       TotalRequests_s (sm_cells (heap gp) a) +
         (if 200 \<le> StatusCode_r resp \<and> StatusCode_r resp < 400 then 1 else 2)"
proof -
  let ?g1 = "updateRequestMetrics (metricsTime1 env) service True gp"
  let ?g2 = "logRequest service method path userID (requestID env) ?g1"
  have a2: "\<And>x. map_of (ServiceMetrics (metrics (?g2\<lparr>httpClient := x\<rparr>))) service = Some a"
    using a by (simp add: logRequest_frame updateRequestMetrics_frame)
  show
    "SuccessRequests_s (sm_cells (heap (snd (ProxyRequest F env service path method body headers userID gp))) a) =
       SuccessRequests_s (sm_cells (heap gp) a) + 1"
    "ErrorRequests_s (sm_cells (heap (snd (ProxyRequest F env service path method body headers userID gp))) a) =
       ErrorRequests_s (sm_cells (heap gp) a) +
         (if 200 \<le> StatusCode_r resp \<and> StatusCode_r resp < 400 then 0 else 1)"
    "TotalRequests_s (sm_cells (heap (snd (ProxyRequest F env service path method body headers userID gp))) a) =
       TotalRequests_s (sm_cells (heap gp) a) +
         (if 200 \<le> StatusCode_r resp \<and> StatusCode_r resp < 400 then 1 else 2)"
    using assms(1-5)
    by (simp_all add: ProxyRequest_def Let_def updateRequestMetrics_frame logRequest_frame
        logMetrics_frame updateLatencyMetrics_counters updateRequestMetrics_cell [OF a2]
        updateRequestMetrics_cell [OF a])
qed

lemma ProxyRequest_response_result:
  assumes "map_of (services gp) service = Some si" "read_body body = Inr bs"
    "NewRequest env method (URL si @ path) = None" "\<forall>r. Do env r = Inr resp"
    "Body_resp resp = Inr rb"
  shows "\<exists>r. fst (ProxyRequest F env service path method body headers userID gp) = Inr r \<and>
             StatusCode r = StatusCode_r resp"
  using assms
  by (simp add: ProxyRequest_def Let_def updateRequestMetrics_frame logRequest_frame)

text \<open>
  C1, evaluated where the code departs from it. The example processor forwards a
  request to \<open>echo\<close>, the upstream answers 500 and \<open>ProxyRequest\<close> returns that
  response. The success counters, global and of \<open>echo\<close>, go from 0 to 1 although 500
  is outside \<open>[200, 400)\<close>: the call counts the request as a success on entry and never
  takes that back. The error counters go to 1 as claimed.
\<close>

theorem server_error_counted_as_success:
  "(\<exists>r. fst (ProxyRequest exact_ops (example_env (Inr response_500)) ''echo'' ''/ping'' ''GET''
             None [] ''u1'' example_gp) = Inr r \<and> StatusCode r = 500) \<and>
   SuccessRequests (metrics example_gp) = 0 \<and>
   SuccessRequests (metrics (snd (ProxyRequest exact_ops (example_env (Inr response_500)) ''echo''
      ''/ping'' ''GET'' None [] ''u1'' example_gp))) = 1 \<and>
   ErrorRequests (metrics (snd (ProxyRequest exact_ops (example_env (Inr response_500)) ''echo''
      ''/ping'' ''GET'' None [] ''u1'' example_gp))) = 1 \<and>
   map_of (ServiceMetrics (metrics example_gp)) ''echo'' = Some 0 \<and>
   SuccessRequests_s (sm_cells (heap example_gp) 0) = 0 \<and>
   SuccessRequests_s (sm_cells (heap (snd (ProxyRequest exact_ops (example_env (Inr response_500))
      ''echo'' ''/ping'' ''GET'' None [] ''u1'' example_gp))) 0) = 1 \<and>
   ErrorRequests_s (sm_cells (heap (snd (ProxyRequest exact_ops (example_env (Inr response_500))
      ''echo'' ''/ping'' ''GET'' None [] ''u1'' example_gp))) 0) = 1"
proof -
  let ?env = "example_env (Inr response_500)"
  have 1: "map_of (services example_gp) ''echo'' = Some echo_info"
    by (simp add: example_gp_fields)
  have 2: "read_body None = Inr []" by (simp add: read_body_def)
  have 3: "NewRequest ?env ''GET'' (URL echo_info @ ''/ping'') = None"
    by (simp add: example_env_def)
  have 4: "\<forall>r. Do ?env r = Inr response_500" by (simp add: example_env_def)
  have 5: "Body_resp response_500 = Inr ''boom''" by (simp add: response_500_def)
  have 6: "map_of (ServiceMetrics (metrics example_gp)) ''echo'' = Some 0"
    by (simp add: example_gp_fields)
  have s: "StatusCode_r response_500 = 500" by (simp add: response_500_def)
  show ?thesis
    using ProxyRequest_response_counters [OF 1 2 3 4 5, of exact_ops "[]" "''u1''"]
      ProxyRequest_response_service_counters [OF 1 2 3 4 5 6, of exact_ops "[]" "''u1''"]
      ProxyRequest_response_result [OF 1 2 3 4 5, of exact_ops "[]" "''u1''"]
    by (simp add: s 6 example_gp_fields zero_sm_def)
qed

text \<open>
  The started example processor knows \<open>echo\<close> only; a call for \<open>ghost\<close> fails and
  the HTTP client has seen nothing.
\<close>

theorem unregistered_service_no_call_witness:
  "map_of (services example_gp) ''ghost'' = None \<and>
   fst (ProxyRequest exact_ops (example_env (Inr response_500)) ''ghost'' ''/ping'' ''GET'' None []
          ''u1'' example_gp) = Inl (ServiceNotFound ''ghost'') \<and>
   httpClient (snd (ProxyRequest exact_ops (example_env (Inr response_500)) ''ghost'' ''/ping''
          ''GET'' None [] ''u1'' example_gp)) = []"
proof -
  have 1: "map_of (services example_gp) ''ghost'' = None" by (simp add: example_gp_fields)
  show ?thesis
    using unregistered_service_no_call [OF 1, of exact_ops "example_env (Inr response_500)"
        "''/ping''" "''GET''" None "[]" "''u1''"]
    by (simp add: 1 example_gp_fields)
qed

text \<open>
  A run of four updates on the started example processor.
\<close>

theorem total_is_success_plus_error_witness:
  "counters_consistent
     (fold (mutate exact_ops)
        [RecordRequest 5 ''echo'' True, RecordRequest 6 ''echo'' False,
         RecordLatency ''echo'' 7000000, RecordRequest 8 ''other'' False]
        example_gp)"
  unfolding example_gp_def by (rule total_is_success_plus_error)


section \<open>Proxy handler: outbound headers\<close>

lemma header_step_lookup:
  assumes step: "\<And>kv acc. step kv acc =
      (if length (snd kv) > 0 \<and> \<not> isSystemHeader (fst kv)
       then AList.update (fst kv) (hd (snd kv)) acc else acc)"
  shows "distinct (map fst rh) \<Longrightarrow>
   map_of (fold step rh acc) k =
     (case map_of rh k of
        Some (v # vs) \<Rightarrow> if isSystemHeader k then map_of acc k else Some v
      | _ \<Rightarrow> map_of acc k)"
proof (induction rh arbitrary: acc)
  case Nil
  then show ?case by simp
next
  case (Cons kv rh)
  obtain k' vs' where kv: "kv = (k', vs')" by (cases kv)
  have n: "map_of rh k' = None"
    using Cons.prems kv by (auto simp: map_of_eq_None_iff)
  have d: "distinct (map fst rh)" using Cons.prems by simp
  have s: "map_of (step kv acc) k =
             (if k = k' \<and> vs' \<noteq> [] \<and> \<not> isSystemHeader k' then Some (hd vs') else map_of acc k)"
    by (simp add: step kv update_conv')
  have "map_of (fold step (kv # rh) acc) k =
          (case map_of rh k of
             Some (v # vs) \<Rightarrow> if isSystemHeader k then map_of (step kv acc) k else Some v
           | _ \<Rightarrow> map_of (step kv acc) k)"
    using Cons.IH [OF d, of "step kv acc"] by simp
  also have "\<dots> = (case map_of (kv # rh) k of
                      Some (v # vs) \<Rightarrow> if isSystemHeader k then map_of acc k else Some v
                    | _ \<Rightarrow> map_of acc k)"
  proof (cases "k = k'")
    case True
    then show ?thesis using n s kv by (cases vs') simp_all
  next
    case False
    then show ?thesis using s kv by (simp split: option.splits list.splits)
  qed
  finally show ?case .
qed

lemma header_step_keys:
  assumes step: "\<And>kv acc. step kv acc =
      (if length (snd kv) > 0 \<and> \<not> isSystemHeader (fst kv)
       then AList.update (fst kv) (hd (snd kv)) acc else acc)"
  shows "fst ` set (fold step rh acc) \<subseteq> fst ` set rh \<union> fst ` set acc"
proof (induction rh arbitrary: acc)
  case Nil
  then show ?case by simp
next
  case (Cons kv rh)
  have "fst ` set (step kv acc) \<subseteq> insert (fst kv) (fst ` set acc)"
    by (simp add: step dom_update subset_insertI)
  with Cons.IH [of "step kv acc"] show ?case by auto
qed

lemma header_step_distinct:
  assumes step: "\<And>kv acc. step kv acc =
      (if length (snd kv) > 0 \<and> \<not> isSystemHeader (fst kv)
       then AList.update (fst kv) (hd (snd kv)) acc else acc)"
  shows "distinct (map fst acc) \<Longrightarrow> distinct (map fst (fold step rh acc))"
proof (induction rh arbitrary: acc)
  case Nil
  then show ?case by simp
next
  case (Cons kv rh)
  have "distinct (map fst (step kv acc))" using Cons.prems by (simp add: step distinct_update)
  from Cons.IH [OF this] show ?case by simp
qed

lemma Proxy_headers_lookup:
  "distinct (map fst rh) \<Longrightarrow>
   map_of (Proxy_headers rh) k =
     (case map_of rh k of
        Some (v # vs) \<Rightarrow> if isSystemHeader k then None else Some v
      | _ \<Rightarrow> None)"
  unfolding Proxy_headers_def
  by (subst header_step_lookup) (simp_all split: option.splits list.splits)

lemma Proxy_headers_keys: "fst ` set (Proxy_headers rh) \<subseteq> fst ` set rh"
  unfolding Proxy_headers_def
  using header_step_keys [of "\<lambda>kv headers.
             if length (snd kv) > 0 \<and> \<not> isSystemHeader (fst kv)
             then AList.update (fst kv) (hd (snd kv)) headers
             else headers" rh "[]"] by simp

lemma Proxy_headers_distinct: "distinct (map fst (Proxy_headers rh))"
  unfolding Proxy_headers_def by (rule header_step_distinct) simp_all

lemma Header_Set_fold:
  "\<forall>k \<in> fst ` set hs. CanonicalMIMEHeaderKey env k = k \<Longrightarrow> distinct (map fst hs) \<Longrightarrow>
   fold (\<lambda>kv. Header_Set env (fst kv) (snd kv)) hs h0 =
     (\<lambda>k. case map_of hs k of Some v \<Rightarrow> Some [v] | None \<Rightarrow> h0 k)"
proof (induction hs arbitrary: h0)
  case Nil
  then show ?case by simp
next
  case (Cons kv hs)
  obtain k' v' where kv: "kv = (k', v')" by (cases kv)
  have n: "map_of hs k' = None"
    using Cons.prems kv by (auto simp: map_of_eq_None_iff)
  have c: "CanonicalMIMEHeaderKey env k' = k'" using Cons.prems kv by simp
  have "fold (\<lambda>kv. Header_Set env (fst kv) (snd kv)) (kv # hs) h0 =
          (\<lambda>k. case map_of hs k of Some v \<Rightarrow> Some [v]
                | None \<Rightarrow> Header_Set env (fst kv) (snd kv) h0 k)"
    using Cons.IH [of "Header_Set env (fst kv) (snd kv) h0"] Cons.prems by simp
  also have "\<dots> = (\<lambda>k. case map_of (kv # hs) k of Some v \<Rightarrow> Some [v] | None \<Rightarrow> h0 k)"
  proof (rule ext)
    fix k
    show "(case map_of hs k of Some v \<Rightarrow> Some [v]
           | None \<Rightarrow> Header_Set env (fst kv) (snd kv) h0 k) =
          (case map_of (kv # hs) k of Some v \<Rightarrow> Some [v] | None \<Rightarrow> h0 k)"
      using n c kv by (cases "k = k'") (simp_all add: Header_Set_def split: option.splits)
  qed
  finally show ?case .
qed

lemma ProxyRequest_httpClient:
  assumes "map_of (services gp) service = Some si" "read_body body = Inr bs"
    "NewRequest env method (URL si @ path) = None"
  shows "httpClient (snd (ProxyRequest F env service path method body headers userID gp)) =
     httpClient gp @
       [\<lparr>Method = method, URL_r = URL si @ path, Body_r = bs,
         Header =
           Header_Set env ''X-Service-Name'' service
             (Header_Set env ''X-Gateway-Timestamp'' (RFC3339 env (startTime env))
               (Header_Set env ''X-User-ID'' userID
                 (Header_Set env ''X-Request-ID'' (requestID env)
                   (fold (\<lambda>kv. Header_Set env (fst kv) (snd kv)) headers Map.empty)))),
         Timeout_r = Timeout si\<rparr>]"
  using assms
  by (simp add: ProxyRequest_def Let_def updateRequestMetrics_frame logRequest_frame
      logMetrics_frame updateLatencyMetrics_frame split: sum.splits)

lemma ProxyRequest_outbound:
  assumes d: "distinct (map fst rHeader)"
    and c: "\<forall>k \<in> fst ` set rHeader. CanonicalMIMEHeaderKey env k = k"
    and s: "map_of (services gp) service = Some si" "read_body body = Inr bs"
      "NewRequest env method (URL si @ path) = None"
  shows "httpClient (snd (ProxyRequest F env service path method body (Proxy_headers rHeader) userID gp)) =
     httpClient gp @
       [\<lparr>Method = method, URL_r = URL si @ path, Body_r = bs,
         Header =
           (\<lambda>k. case map_of rHeader k of
                   Some (v # vs) \<Rightarrow> if isSystemHeader k then None else Some [v]
                 | _ \<Rightarrow> None)
           (CanonicalMIMEHeaderKey env ''X-Request-ID'' \<mapsto> [requestID env],
            CanonicalMIMEHeaderKey env ''X-User-ID'' \<mapsto> [userID],
            CanonicalMIMEHeaderKey env ''X-Gateway-Timestamp'' \<mapsto> [RFC3339 env (startTime env)],
            CanonicalMIMEHeaderKey env ''X-Service-Name'' \<mapsto> [service]),
         Timeout_r = Timeout si\<rparr>]"
proof -
  have c': "\<forall>k \<in> fst ` set (Proxy_headers rHeader). CanonicalMIMEHeaderKey env k = k"
    using c Proxy_headers_keys [of rHeader] by blast
  have "fold (\<lambda>kv. Header_Set env (fst kv) (snd kv)) (Proxy_headers rHeader) Map.empty =
          (\<lambda>k. case map_of rHeader k of
                  Some (v # vs) \<Rightarrow> if isSystemHeader k then None else Some [v]
                | _ \<Rightarrow> None)"
    unfolding Header_Set_fold [OF c' Proxy_headers_distinct]
    by (auto simp add: fun_eq_iff Proxy_headers_lookup [OF d] split: option.splits list.splits)
  then show ?thesis
    unfolding ProxyRequest_httpClient [OF s] by (simp add: Header_Set_def)
qed

lemma isSystemHeader_Authorization: "isSystemHeader ''Authorization''"
  by (simp add: isSystemHeader_def ToLower_def toLower_byte_def)

text \<open>
  C3, as amended. When the service is registered, the body readable and the request
  constructible, \<open>ProxyRequest\<close> hands the HTTP client one request whose headers are the
  caller's headers (first value of each; keys as the server stores them, in canonical
  form) without those on the deny-list, overridden by the four tracing headers:
  request id, user id, gateway timestamp and service name. \<open>Authorization\<close> is on the
  deny-list, so it is stripped and not forwarded.
\<close>

theorem outbound_headers:
  assumes "distinct (map fst rHeader)"
    and "\<forall>k \<in> fst ` set rHeader. CanonicalMIMEHeaderKey env k = k"
    and "map_of (services gp) service = Some si" "read_body body = Inr bs"
      "NewRequest env method (URL si @ path) = None"
  shows "isSystemHeader ''Authorization'' \<and>
     httpClient (snd (ProxyRequest F env service path method body (Proxy_headers rHeader) userID gp)) =
     httpClient gp @
       [\<lparr>Method = method, URL_r = URL si @ path, Body_r = bs,
         Header =
           (\<lambda>k. case map_of rHeader k of
                   Some (v # vs) \<Rightarrow> if isSystemHeader k then None else Some [v]
                 | _ \<Rightarrow> None)
           (CanonicalMIMEHeaderKey env ''X-Request-ID'' \<mapsto> [requestID env],
            CanonicalMIMEHeaderKey env ''X-User-ID'' \<mapsto> [userID],
            CanonicalMIMEHeaderKey env ''X-Gateway-Timestamp'' \<mapsto> [RFC3339 env (startTime env)],
            CanonicalMIMEHeaderKey env ''X-Service-Name'' \<mapsto> [service]),
         Timeout_r = Timeout si\<rparr>]"
  using ProxyRequest_outbound [OF assms] isSystemHeader_Authorization by simp

text \<open>
  A caller sending \<open>Authorization\<close>, \<open>Accept\<close> and its own \<open>X-Request-Id\<close>:
  \<open>Accept\<close> passes with its first value, \<open>Authorization\<close> is gone, the request id is
  the generated one.
\<close>

theorem outbound_headers_witness:
  "distinct (map fst [(''Authorization'', [''Bearer t0k3n'']), (''Accept'', [''*/*'', ''text/html'']),
                      (''X-Request-Id'', [''caller-chosen''])]) \<and>
   map (\<lambda>r. map (Header r)
               [''Accept'', ''Authorization'', ''X-Request-Id'', ''X-User-Id'',
                ''X-Gateway-Timestamp'', ''X-Service-Name''])
     (httpClient (snd (ProxyRequest exact_ops (example_env (Inr response_500)) ''echo'' ''/ping''
        ''GET'' None
        (Proxy_headers [(''Authorization'', [''Bearer t0k3n'']), (''Accept'', [''*/*'', ''text/html'']),
                        (''X-Request-Id'', [''caller-chosen''])])
        ''u1'' example_gp))) =
   [[Some [''*/*''], None, Some [''3f2b8c1e-0000-4000-8000-000000000001''], Some [''u1''],
     Some [''2024-01-01T00:00:00Z''], Some [''echo'']]]"
proof -
  let ?rh = "[(''Authorization'', [''Bearer t0k3n'']), (''Accept'', [''*/*'', ''text/html'']),
              (''X-Request-Id'', [''caller-chosen''])]"
  let ?env = "example_env (Inr response_500)"
  have 1: "distinct (map fst ?rh)" by simp
  have 2: "\<forall>k \<in> fst ` set ?rh. CanonicalMIMEHeaderKey ?env k = k"
    by (simp add: example_env_def example_canon_def)
  have 3: "map_of (services example_gp) ''echo'' = Some echo_info"
    by (simp add: example_gp_fields)
  have 4: "read_body None = Inr []" by (simp add: read_body_def)
  have 5: "NewRequest ?env ''GET'' (URL echo_info @ ''/ping'') = None"
    by (simp add: example_env_def)
  have a: "\<not> isSystemHeader ''Accept''"
    by (simp add: isSystemHeader_def ToLower_def toLower_byte_def)
  have c: "CanonicalMIMEHeaderKey ?env ''X-Request-ID'' = ''X-Request-Id''"
    "CanonicalMIMEHeaderKey ?env ''X-User-ID'' = ''X-User-Id''"
    "CanonicalMIMEHeaderKey ?env ''X-Gateway-Timestamp'' = ''X-Gateway-Timestamp''"
    "CanonicalMIMEHeaderKey ?env ''X-Service-Name'' = ''X-Service-Name''"
    "requestID ?env = ''3f2b8c1e-0000-4000-8000-000000000001''"
    "RFC3339 ?env (startTime ?env) = ''2024-01-01T00:00:00Z''"
    by (simp_all add: example_env_def example_canon_def)
  show ?thesis
    using outbound_headers [OF 1 2 3 4 5, of exact_ops "''u1''"]
    by (simp add: c a example_gp_fields)
qed

text \<open>
  The claim as written has \<open>Authorization\<close> forwarded; the outbound request of a caller
  who sent it carries no such header.
\<close>

theorem authorization_not_forwarded_counterexample:
  "map (\<lambda>r. Header r ''Authorization'')
     (httpClient (snd (ProxyRequest exact_ops (example_env (Inr response_500)) ''echo'' ''/ping''
        ''GET'' None (Proxy_headers [(''Authorization'', [''Bearer t0k3n''])]) ''u1'' example_gp))) =
   [None]"
proof -
  let ?rh = "[(''Authorization'', [''Bearer t0k3n''])]"
  let ?env = "example_env (Inr response_500)"
  have 1: "distinct (map fst ?rh)" by simp
  have 2: "\<forall>k \<in> fst ` set ?rh. CanonicalMIMEHeaderKey ?env k = k"
    by (simp add: example_env_def example_canon_def)
  have 3: "map_of (services example_gp) ''echo'' = Some echo_info"
    by (simp add: example_gp_fields)
  have 4: "read_body None = Inr []" by (simp add: read_body_def)
  have 5: "NewRequest ?env ''GET'' (URL echo_info @ ''/ping'') = None"
    by (simp add: example_env_def)
  have c: "CanonicalMIMEHeaderKey ?env ''X-Request-ID'' = ''X-Request-Id''"
    "CanonicalMIMEHeaderKey ?env ''X-User-ID'' = ''X-User-Id''"
    "CanonicalMIMEHeaderKey ?env ''X-Gateway-Timestamp'' = ''X-Gateway-Timestamp''"
    "CanonicalMIMEHeaderKey ?env ''X-Service-Name'' = ''X-Service-Name''"
    by (simp_all add: example_env_def example_canon_def)
  show ?thesis
    using ProxyRequest_outbound [OF 1 2 3 4 5, of exact_ops "''u1''"]
    by (simp add: c isSystemHeader_Authorization example_gp_fields)
qed


section \<open>Token validation: the bounded wait\<close>

lemma find_response_None:
  "\<forall>m \<in> set ms. \<forall>d r. Values m ''data'' = Some (Str d) \<longrightarrow> Unmarshal env d = Some r \<longrightarrow>
       RequestID_a r \<noteq> rid \<Longrightarrow>
   find_response env rid ms = None"
  by (induction ms) (auto split: option.splits redis_value.splits)

text \<open>
  C2, as amended. Once the request is published, a validation issues exactly one
  blocking read, for one message and with a block time of five seconds. If that read
  comes back empty (the block time has passed), the validation fails with the timeout
  error. If it delivers messages none of which decodes to a response with our request
  id, no message is acknowledged and none is returned as the answer, but the wait is
  over: the validation fails at once with the no-response error and reads no more.
\<close>

theorem unmatched_reply_ends_wait:
  assumes pub: "Marshal env \<lparr>RequestID = uuid env, Token = token, Timestamp_q = unix_now env\<rparr> = Inr d"
      "XAdd_result env = None"
    and other: "\<forall>m \<in> set (concat (map Messages streams)). \<forall>p r.
        Values m ''data'' = Some (Str p) \<longrightarrow> Unmarshal env p = Some r \<longrightarrow>
        RequestID_a r \<noteq> uuid env"
  shows "validateTokenViaRedis (env\<lparr>XReadGroup_result := RedisNil\<rparr>) token =
           (Inl AuthTimeout,
            [XAdd ''auth-requests'' d,
             XGroupCreateMkStream ''auth-responses'' ''gateway-auth'' ''0'',
             XReadGroup ''gateway-auth'' (''gateway-'' @ take 8 (uuid env))
               [''auth-responses'', ''>''] 1 5000000000]) \<and>
         validateTokenViaRedis (env\<lparr>XReadGroup_result := ReadStreams streams\<rparr>) token =
           (Inl NoResponse,
            [XAdd ''auth-requests'' d,
             XGroupCreateMkStream ''auth-responses'' ''gateway-auth'' ''0'',
             XReadGroup ''gateway-auth'' (''gateway-'' @ take 8 (uuid env))
               [''auth-responses'', ''>''] 1 5000000000])"
proof -
  have "find_response (env\<lparr>XReadGroup_result := ReadStreams streams\<rparr>) (uuid env)
          (concat (map Messages streams)) = None"
    using other by (intro find_response_None) simp
  then show ?thesis using pub by (simp add: validateTokenViaRedis_def Let_def)
qed

lemma example_auth_env_update:
  "(example_auth_env x)\<lparr>XReadGroup_result := y\<rparr> = example_auth_env y"
  by (simp add: example_auth_env_def)

text \<open>
  The example validation, once with an empty read and once with a reply to another
  request.
\<close>

theorem unmatched_reply_ends_wait_witness:
  "validateTokenViaRedis (example_auth_env RedisNil) ''tok'' =
     (Inl AuthTimeout,
      [XAdd ''auth-requests'' ''3f2b8c1e-0000-4000-8000-000000000001|tok'',
       XGroupCreateMkStream ''auth-responses'' ''gateway-auth'' ''0'',
       XReadGroup ''gateway-auth'' ''gateway-3f2b8c1e'' [''auth-responses'', ''>''] 1 5000000000]) \<and>
   validateTokenViaRedis (example_auth_env (ReadStreams other_reply)) ''tok'' =
     (Inl NoResponse,
      [XAdd ''auth-requests'' ''3f2b8c1e-0000-4000-8000-000000000001|tok'',
       XGroupCreateMkStream ''auth-responses'' ''gateway-auth'' ''0'',
       XReadGroup ''gateway-auth'' ''gateway-3f2b8c1e'' [''auth-responses'', ''>''] 1 5000000000])"
proof -
  let ?env = "example_auth_env RedisNil"
  have 1: "Marshal ?env \<lparr>RequestID = uuid ?env, Token = ''tok'', Timestamp_q = unix_now ?env\<rparr> =
             Inr ''3f2b8c1e-0000-4000-8000-000000000001|tok''"
    by (simp add: example_auth_env_def)
  have 2: "XAdd_result ?env = None" by (simp add: example_auth_env_def)
  have 3: "\<forall>m \<in> set (concat (map Messages other_reply)). \<forall>p r.
        Values m ''data'' = Some (Str p) \<longrightarrow> Unmarshal ?env p = Some r \<longrightarrow>
        RequestID_a r \<noteq> uuid ?env"
    by (auto simp add: other_reply_def example_auth_env_def split: if_splits)
  have u: "''gateway-'' @ take 8 (uuid ?env) = ''gateway-3f2b8c1e''"
    by (simp add: example_auth_env_def)
  show ?thesis
    using unmatched_reply_ends_wait [OF 1 2 3] unfolding example_auth_env_update u .
qed

text \<open>
  The claim as written has a reply for another request leave the wait running until
  the timeout error; the validation that receives such a reply fails with the
  no-response error instead.
\<close>

theorem unmatched_reply_no_timeout_counterexample:
  "fst (validateTokenViaRedis (example_auth_env (ReadStreams other_reply)) ''tok'') = Inl NoResponse \<and>
   fst (validateTokenViaRedis (example_auth_env (ReadStreams other_reply)) ''tok'') \<noteq> Inl AuthTimeout"
  by (simp add: validateTokenViaRedis_def example_auth_env_def other_reply_def Let_def)


section \<open>Health monitor: probes and the sweep\<close>

lemma performHealthCheck_ok:
  assumes "NewRequest env ''GET'' (HealthCheck si) = None"
  shows "fst (performHealthCheck env s si gp) = Inr (nextAddr (heap gp))"
    "hc_cells (heap (snd (performHealthCheck env s si gp))) =
       (hc_cells (heap gp))(nextAddr (heap gp) :=
          probe_result env s si (Do env (probe_request env si)))"
    "nextAddr (heap (snd (performHealthCheck env s si gp))) = Suc (nextAddr (heap gp))"
    "healthStats (snd (performHealthCheck env s si gp)) =
       AList.update s (nextAddr (heap gp)) (healthStats gp)"
    "HealthStats (metrics (snd (performHealthCheck env s si gp))) =
       AList.update s (nextAddr (heap gp)) (HealthStats (metrics gp))"
  using assms by (simp_all add: performHealthCheck_def Let_def new_hc_def logMetrics_def)

lemma performHealthCheck_fail:
  assumes "NewRequest env ''GET'' (HealthCheck si) = Some e"
  shows "performHealthCheck env s si gp = (Inl (CreateHealthRequestFailed e), gp)"
  using assms by (simp add: performHealthCheck_def)

text \<open>The entry of service \<open>s\<close> holds the result \<open>r\<close>, in an allocated cell.\<close>

lemma recorded_kept:
  assumes "map_of (healthStats gp) s = Some a" "a < nextAddr (heap gp)"
    "hc_cells (heap gp) a = r" "s' \<noteq> s"
  shows "map_of (healthStats (snd (performHealthCheck env s' si' gp))) s = Some a \<and>
         a < nextAddr (heap (snd (performHealthCheck env s' si' gp))) \<and>
         hc_cells (heap (snd (performHealthCheck env s' si' gp))) a = r"
proof (cases "NewRequest env ''GET'' (HealthCheck si')")
  case None
  show ?thesis using assms by (simp add: performHealthCheck_ok [OF None] update_conv')
next
  case (Some e)
  show ?thesis using assms by (simp add: performHealthCheck_fail [OF Some])
qed

lemma recorded_kept_fold:
  "map_of (healthStats gp) s = Some a \<Longrightarrow> a < nextAddr (heap gp) \<Longrightarrow>
   hc_cells (heap gp) a = r \<Longrightarrow> s \<notin> fst ` set xs \<Longrightarrow>
   map_of (healthStats (fold (\<lambda>e g. snd (performHealthCheck (envs (fst e)) (fst e) (snd e) g)) xs gp)) s = Some a \<and>
   hc_cells (heap (fold (\<lambda>e g. snd (performHealthCheck (envs (fst e)) (fst e) (snd e) g)) xs gp)) a = r"
proof (induction xs arbitrary: gp)
  case Nil
  then show ?case by simp
next
  case (Cons x xs)
  have ne: "fst x \<noteq> s" and nin: "s \<notin> fst ` set xs" using Cons.prems(4) by auto
  note k = recorded_kept [OF Cons.prems(1-3) ne, of "envs (fst x)" "snd x"]
  show ?case using Cons.IH [OF _ _ _ nin, of "snd (performHealthCheck (envs (fst x)) (fst x) (snd x) gp)"] k
    by simp
qed

lemma sweep_records:
  "distinct (map fst xs) \<Longrightarrow> (s, si) \<in> set xs \<Longrightarrow>
   NewRequest (envs s) ''GET'' (HealthCheck si) = None \<Longrightarrow>
   \<exists>a. map_of (healthStats (fold (\<lambda>e g. snd (performHealthCheck (envs (fst e)) (fst e) (snd e) g)) xs gp)) s = Some a \<and>
       hc_cells (heap (fold (\<lambda>e g. snd (performHealthCheck (envs (fst e)) (fst e) (snd e) g)) xs gp)) a =
         probe_result (envs s) s si (Do (envs s) (probe_request (envs s) si))"
proof (induction xs arbitrary: gp)
  case Nil
  then show ?case by simp
next
  case (Cons x xs)
  let ?g = "snd (performHealthCheck (envs (fst x)) (fst x) (snd x) gp)"
  show ?case
  proof (cases "x = (s, si)")
    case True
    have nin: "s \<notin> fst ` set xs" using Cons.prems(1) True by auto
    note ok = performHealthCheck_ok [OF Cons.prems(3), of s gp]
    have 1: "map_of (healthStats (snd (performHealthCheck (envs s) s si gp))) s = Some (nextAddr (heap gp))"
      by (simp add: ok update_conv')
    have 2: "nextAddr (heap gp) < nextAddr (heap (snd (performHealthCheck (envs s) s si gp)))"
      by (simp add: ok)
    have 3: "hc_cells (heap (snd (performHealthCheck (envs s) s si gp))) (nextAddr (heap gp)) =
               probe_result (envs s) s si (Do (envs s) (probe_request (envs s) si))"
      by (simp add: ok)
    from recorded_kept_fold [OF 1 2 3 nin, of envs] True show ?thesis by auto
  next
    case False
    then have "(s, si) \<in> set xs" using Cons.prems(2) by simp
    moreover have "distinct (map fst xs)" using Cons.prems(1) by simp
    ultimately show ?thesis using Cons.IH [of ?g] Cons.prems(3) by simp
  qed
qed

lemma checkAllServices_state:
  "healthStats (checkAllServices envs gp) =
     healthStats (fold (\<lambda>e g. snd (performHealthCheck (envs (fst e)) (fst e) (snd e) g)) (services gp) gp)"
  "heap (checkAllServices envs gp) =
     heap (fold (\<lambda>e g. snd (performHealthCheck (envs (fst e)) (fst e) (snd e) g)) (services gp) gp)"
  by (simp_all add: checkAllServices_def Let_def)

lemma probe_result_error:
  "probe_result env s si (Inl e) =
     \<lparr>Service = s, Status = ''unhealthy'', URL_h = HealthCheck si, Duration = elapsed env,
      Error = e, Timestamp = startTime env\<rparr>"
  by (simp add: probe_result_def)

lemma probe_result_response:
  "probe_result env s si (Inr resp) =
     \<lparr>Service = s,
      Status = (if StatusCode_r resp = 200 then ''healthy'' else ''unhealthy''),
      URL_h = HealthCheck si, Duration = elapsed env,
      Error = (if StatusCode_r resp = 200 then [] else ''status code: '' @ Itoa (StatusCode_r resp)),
      Timestamp = startTime env\<rparr>"
  by (simp add: probe_result_def)

text \<open>
  C8, as amended. For a registered service whose probe request can be built, the probe
  returns a result and no error, and the result records the outcome: a transport error
  gives status \<open>unhealthy\<close> with the error text, a status other than 200 gives
  \<open>unhealthy\<close> with \<open>status code: N\<close>, and 200 gives \<open>healthy\<close>. The sweep drops
  what the probes return, so whatever happens to the probes of the other services, at
  the end of the sweep the entry of this service holds the result of its own probe.
\<close>

theorem probe_failures_recorded:
  assumes "distinct (map fst (services gp))" "(s, si) \<in> set (services gp)"
    "NewRequest (envs s) ''GET'' (HealthCheck si) = None"
  shows
    "fst (performHealthCheck (envs s) s si gp) = Inr (nextAddr (heap gp)) \<and>
     hc_cells (heap (snd (performHealthCheck (envs s) s si gp))) (nextAddr (heap gp)) =
       probe_result (envs s) s si (Do (envs s) (probe_request (envs s) si)) \<and>
     (\<exists>a. map_of (healthStats (checkAllServices envs gp)) s = Some a \<and>
          hc_cells (heap (checkAllServices envs gp)) a =
            probe_result (envs s) s si (Do (envs s) (probe_request (envs s) si))) \<and>
     probe_result env' s' si' (Inl e) =
       \<lparr>Service = s', Status = ''unhealthy'', URL_h = HealthCheck si', Duration = elapsed env',
        Error = e, Timestamp = startTime env'\<rparr> \<and>
     probe_result env' s' si' (Inr resp) =
       \<lparr>Service = s',
        Status = (if StatusCode_r resp = 200 then ''healthy'' else ''unhealthy''),
        URL_h = HealthCheck si', Duration = elapsed env',
        Error = (if StatusCode_r resp = 200 then []
                 else ''status code: '' @ Itoa (StatusCode_r resp)),
        Timestamp = startTime env'\<rparr>"
  using performHealthCheck_ok(1,2) [OF assms(3), of s gp] sweep_records [where envs = envs and xs = "services gp" and gp = gp and s = s and si = si, OF assms]
  by (simp add: checkAllServices_state probe_result_error probe_result_response)

lemma example_gp2_fields:
  "services example_gp2 = [(''broken'', broken_info), (''echo'', echo_info)]"
  "healthStats example_gp2 = []"
  "nextAddr (heap example_gp2) = 2"
  by (simp_all add: example_gp2_def Start_def Start_entry_def NewGatewayProcessor_def new_sm_def
      Let_def)

lemma Itoa_500: "Itoa 500 = ''500''"
  by (simp add: Itoa_def Itoa_nat.simps)

text \<open>
  A sweep over \<open>broken\<close> and \<open>echo\<close>: the probe of \<open>broken\<close> cannot be built, the
  probe of \<open>echo\<close> is refused, and \<open>echo\<close> ends up recorded as unhealthy with the
  cause.
\<close>

theorem probe_failures_recorded_witness:
  "fst (performHealthCheck (sweep_env ''echo'') ''echo'' echo_info example_gp2) = Inr 2 \<and>
   (\<exists>a. map_of (healthStats (checkAllServices sweep_env example_gp2)) ''echo'' = Some a \<and>
        hc_cells (heap (checkAllServices sweep_env example_gp2)) a =
          \<lparr>Service = ''echo'', Status = ''unhealthy'', URL_h = ''http://localhost:9000/health'',
           Duration = 7000000, Error = ''connection refused'', Timestamp = 1000\<rparr>) \<and>
   probe_result (sweep_env ''echo'') ''echo'' echo_info (Inr response_500) =
     \<lparr>Service = ''echo'', Status = ''unhealthy'', URL_h = ''http://localhost:9000/health'',
      Duration = 7000000, Error = ''status code: 500'', Timestamp = 1000\<rparr>"
proof -
  have 1: "distinct (map fst (services example_gp2))" by (simp add: example_gp2_fields)
  have 2: "(''echo'', echo_info) \<in> set (services example_gp2)" by (simp add: example_gp2_fields)
  have 3: "NewRequest (sweep_env ''echo'') ''GET'' (HealthCheck echo_info) = None"
    by (simp add: sweep_env_def example_env_def echo_info_def)
  have d: "Do (sweep_env ''echo'') (probe_request (sweep_env ''echo'') echo_info) =
             Inl ''connection refused''"
    by (simp add: sweep_env_def example_env_def)
  have f: "HealthCheck echo_info = ''http://localhost:9000/health''"
    "elapsed (sweep_env ''echo'') = 7000000" "startTime (sweep_env ''echo'') = 1000"
    "StatusCode_r response_500 = 500"
    by (simp_all add: sweep_env_def example_env_def echo_info_def response_500_def)
  show ?thesis
    using probe_failures_recorded [where gp = example_gp2 and s = "''echo''" and si = echo_info
        and envs = sweep_env and env' = "sweep_env ''echo''" and s' = "''echo''"
        and si' = echo_info and resp = response_500 and e = "''connection refused''", OF 1 2 3]
    by (auto simp add: d f Itoa_500 example_gp2_fields)
qed

text \<open>
  The claim as written has no probe return an error in place of a result; the probe of
  a service whose health URL cannot be parsed returns the error and records nothing.
\<close>

theorem probe_returns_error_counterexample:
  "performHealthCheck (sweep_env ''broken'') ''broken'' broken_info example_gp2 =
     (Inl (CreateHealthRequestFailed ''invalid character in host name''), example_gp2)"
  by (simp add: performHealthCheck_def sweep_env_def example_env_def broken_info_def)


section \<open>Metrics aggregator: the snapshot\<close>

lemma update_append: "k \<notin> fst ` set al \<Longrightarrow> AList.update k v al = al @ [(k, v)]"
  by (induction al) auto

lemma sm_copy_eq:
  "\<lparr>TotalRequests_s = TotalRequests_s m, SuccessRequests_s = SuccessRequests_s m,
    ErrorRequests_s = ErrorRequests_s m, AverageLatency_s = AverageLatency_s m,
    LastRequest = LastRequest m\<rparr> = (m :: 'f ServiceMetrics)"
  by (cases m) simp

lemma copy_sm_step:
  "copy_sm e (acc, h) =
     (AList.update (fst e) (nextAddr h) acc,
      h\<lparr>sm_cells := (sm_cells h)(nextAddr h := sm_cells h (snd e)), nextAddr := Suc (nextAddr h)\<rparr>)"
  by (simp add: copy_sm_def new_sm_def Let_def sm_copy_eq)

lemma copy_hc_step:
  "copy_hc e (acc, h) =
     (AList.update (fst e) (nextAddr h) acc,
      h\<lparr>hc_cells := (hc_cells h)(nextAddr h := hc_cells h (snd e)), nextAddr := Suc (nextAddr h)\<rparr>)"
  by (simp add: copy_hc_def new_hc_def Let_def)

lemma copy_sm_fold:
  "distinct (map fst L) \<Longrightarrow> fst ` set acc \<inter> fst ` set L = {} \<Longrightarrow>
   \<forall>e \<in> set L. snd e < nextAddr h \<Longrightarrow> \<forall>e \<in> set acc. snd e < nextAddr h \<Longrightarrow>
   map fst (fst (fold copy_sm L (acc, h))) = map fst (acc @ L) \<and>
   map (\<lambda>e. sm_cells (snd (fold copy_sm L (acc, h))) (snd e)) (fst (fold copy_sm L (acc, h))) =
     map (\<lambda>e. sm_cells h (snd e)) (acc @ L) \<and>
   (\<forall>e \<in> set (fst (fold copy_sm L (acc, h))). snd e \<in> snd ` set acc \<or> nextAddr h \<le> snd e) \<and>
   (\<forall>e \<in> set (fst (fold copy_sm L (acc, h))). snd e < nextAddr (snd (fold copy_sm L (acc, h)))) \<and>
   (\<forall>a < nextAddr h. sm_cells (snd (fold copy_sm L (acc, h))) a = sm_cells h a) \<and>
   hc_cells (snd (fold copy_sm L (acc, h))) = hc_cells h \<and>
   nextAddr h \<le> nextAddr (snd (fold copy_sm L (acc, h)))"
proof (induction L arbitrary: acc h)
  case Nil
  then show ?case by simp
next
  case (Cons e L)
  let ?acc = "acc @ [(fst e, nextAddr h)]"
  let ?h = "h\<lparr>sm_cells := (sm_cells h)(nextAddr h := sm_cells h (snd e)),
              nextAddr := Suc (nextAddr h)\<rparr>"
  have nin: "fst e \<notin> fst ` set acc" using Cons.prems(2) by auto
  have st: "copy_sm e (acc, h) = (?acc, ?h)"
    by (simp add: copy_sm_step update_append [OF nin])
  define r where "r = fold copy_sm L (?acc, ?h)"
  have f: "fold copy_sm (e # L) (acc, h) = r" by (simp add: st r_def)
  have p1: "distinct (map fst L)" using Cons.prems(1) by simp
  have p2: "fst ` set ?acc \<inter> fst ` set L = {}" using Cons.prems(1,2) by auto
  have p3: "\<forall>x \<in> set L. snd x < nextAddr ?h" using Cons.prems(3) by auto
  have p4: "\<forall>x \<in> set ?acc. snd x < nextAddr ?h" using Cons.prems(4) by auto
  note IH = Cons.IH [OF p1 p2 p3 p4, folded r_def]
  have c: "map (\<lambda>x. sm_cells ?h (snd x)) (?acc @ L) = map (\<lambda>x. sm_cells h (snd x)) (acc @ e # L)"
    using Cons.prems(3,4) by auto
  have 1: "map fst (fst r) = map fst (acc @ e # L)" using IH by simp
  have 2: "map (\<lambda>x. sm_cells (snd r) (snd x)) (fst r) = map (\<lambda>x. sm_cells h (snd x)) (acc @ e # L)"
    using IH c by simp
  have 3: "\<forall>x \<in> set (fst r). snd x \<in> snd ` set acc \<or> nextAddr h \<le> snd x"
    using IH by fastforce
  have 4: "\<forall>x \<in> set (fst r). snd x < nextAddr (snd r)" using IH by simp
  have 5: "\<forall>a < nextAddr h. sm_cells (snd r) a = sm_cells h a" using IH by simp
  have 6: "hc_cells (snd r) = hc_cells h" using IH by simp
  have 7: "nextAddr h \<le> nextAddr (snd r)" using IH by simp
  show ?case unfolding f using 1 2 3 4 5 6 7 by blast
qed

lemma copy_hc_fold:
  "distinct (map fst L) \<Longrightarrow> fst ` set acc \<inter> fst ` set L = {} \<Longrightarrow>
   \<forall>e \<in> set L. snd e < nextAddr h \<Longrightarrow> \<forall>e \<in> set acc. snd e < nextAddr h \<Longrightarrow>
   map fst (fst (fold copy_hc L (acc, h))) = map fst (acc @ L) \<and>
   map (\<lambda>e. hc_cells (snd (fold copy_hc L (acc, h))) (snd e)) (fst (fold copy_hc L (acc, h))) =
     map (\<lambda>e. hc_cells h (snd e)) (acc @ L) \<and>
   (\<forall>e \<in> set (fst (fold copy_hc L (acc, h))). snd e \<in> snd ` set acc \<or> nextAddr h \<le> snd e) \<and>
   (\<forall>e \<in> set (fst (fold copy_hc L (acc, h))). snd e < nextAddr (snd (fold copy_hc L (acc, h)))) \<and>
   (\<forall>a < nextAddr h. hc_cells (snd (fold copy_hc L (acc, h))) a = hc_cells h a) \<and>
   sm_cells (snd (fold copy_hc L (acc, h))) = sm_cells h \<and>
   nextAddr h \<le> nextAddr (snd (fold copy_hc L (acc, h)))"
proof (induction L arbitrary: acc h)
  case Nil
  then show ?case by simp
next
  case (Cons e L)
  let ?acc = "acc @ [(fst e, nextAddr h)]"
  let ?h = "h\<lparr>hc_cells := (hc_cells h)(nextAddr h := hc_cells h (snd e)),
              nextAddr := Suc (nextAddr h)\<rparr>"
  have nin: "fst e \<notin> fst ` set acc" using Cons.prems(2) by auto
  have st: "copy_hc e (acc, h) = (?acc, ?h)"
    by (simp add: copy_hc_step update_append [OF nin])
  define r where "r = fold copy_hc L (?acc, ?h)"
  have f: "fold copy_hc (e # L) (acc, h) = r" by (simp add: st r_def)
  have p1: "distinct (map fst L)" using Cons.prems(1) by simp
  have p2: "fst ` set ?acc \<inter> fst ` set L = {}" using Cons.prems(1,2) by auto
  have p3: "\<forall>x \<in> set L. snd x < nextAddr ?h" using Cons.prems(3) by auto
  have p4: "\<forall>x \<in> set ?acc. snd x < nextAddr ?h" using Cons.prems(4) by auto
  note IH = Cons.IH [OF p1 p2 p3 p4, folded r_def]
  have c: "map (\<lambda>x. hc_cells ?h (snd x)) (?acc @ L) = map (\<lambda>x. hc_cells h (snd x)) (acc @ e # L)"
    using Cons.prems(3,4) by auto
  have 1: "map fst (fst r) = map fst (acc @ e # L)" using IH by simp
  have 2: "map (\<lambda>x. hc_cells (snd r) (snd x)) (fst r) = map (\<lambda>x. hc_cells h (snd x)) (acc @ e # L)"
    using IH c by simp
  have 3: "\<forall>x \<in> set (fst r). snd x \<in> snd ` set acc \<or> nextAddr h \<le> snd x"
    using IH by fastforce
  have 4: "\<forall>x \<in> set (fst r). snd x < nextAddr (snd r)" using IH by simp
  have 5: "\<forall>a < nextAddr h. hc_cells (snd r) a = hc_cells h a" using IH by simp
  have 6: "sm_cells (snd r) = sm_cells h" using IH by simp
  have 7: "nextAddr h \<le> nextAddr (snd r)" using IH by simp
  show ?case unfolding f using 1 2 3 4 5 6 7 by blast
qed

lemma sm_cell_kept_request:
  assumes "\<forall>e \<in> set (ServiceMetrics (metrics gp)). snd e \<noteq> a"
  shows "sm_cells (heap (updateRequestMetrics now s ok gp)) a = sm_cells (heap gp) a"
proof (cases "map_of (ServiceMetrics (metrics gp)) s")
  case None
  then show ?thesis by (simp add: updateRequestMetrics_def Let_def)
next
  case (Some a')
  then have "a' \<noteq> a" using assms map_of_SomeD [OF Some] by auto
  then show ?thesis using Some by (simp add: updateRequestMetrics_def Let_def)
qed

lemma sm_cell_kept_latency:
  assumes "\<forall>e \<in> set (ServiceMetrics (metrics gp)). snd e \<noteq> a"
  shows "sm_cells (heap (updateLatencyMetrics F s d gp)) a = sm_cells (heap gp) a"
proof (cases "map_of (ServiceMetrics (metrics gp)) s")
  case None
  then show ?thesis by (simp add: updateLatencyMetrics_def Let_def)
next
  case (Some a')
  then have "a' \<noteq> a" using assms map_of_SomeD [OF Some] by auto
  then show ?thesis using Some by (simp add: updateLatencyMetrics_def Let_def)
qed

lemma mutate_frame:
  assumes As: "\<forall>e \<in> set (ServiceMetrics (metrics g)). snd e \<notin> As"
    and Bs: "\<forall>e \<in> set (HealthStats (metrics g)) \<union> set (healthStats g). snd e \<notin> Bs"
    and C: "\<forall>a \<in> Bs. a < nextAddr (heap g)"
  shows "(\<forall>e \<in> set (ServiceMetrics (metrics (mutate F m g))). snd e \<notin> As) \<and>
         (\<forall>e \<in> set (HealthStats (metrics (mutate F m g))) \<union> set (healthStats (mutate F m g)).
             snd e \<notin> Bs) \<and>
         (\<forall>a \<in> Bs. a < nextAddr (heap (mutate F m g))) \<and>
         (\<forall>a \<in> As. sm_cells (heap (mutate F m g)) a = sm_cells (heap g) a) \<and>
         (\<forall>a \<in> Bs. hc_cells (heap (mutate F m g)) a = hc_cells (heap g) a)"
proof (cases m)
  case (RecordRequest now s ok)
  have "\<forall>a \<in> As. sm_cells (heap (updateRequestMetrics now s ok g)) a = sm_cells (heap g) a"
    using As by (intro ballI sm_cell_kept_request) auto
  then show ?thesis using As Bs C RecordRequest by (simp add: updateRequestMetrics_frame)
next
  case (RecordLatency s d)
  have "\<forall>a \<in> As. sm_cells (heap (updateLatencyMetrics F s d g)) a = sm_cells (heap g) a"
    using As by (intro ballI sm_cell_kept_latency) auto
  then show ?thesis using As Bs C RecordLatency by (simp add: updateLatencyMetrics_frame)
next
  case (Probe env s si)
  show ?thesis
  proof (cases "NewRequest env ''GET'' (HealthCheck si)")
    case (Some e)
    then show ?thesis using As Bs C Probe by (simp add: performHealthCheck_fail)
  next
    case None
    note ok = performHealthCheck_ok [OF None, of s g]
    have n: "nextAddr (heap g) \<notin> Bs" using C by auto
    have 1: "\<forall>e \<in> set (healthStats (snd (performHealthCheck env s si g))). snd e \<notin> Bs"
      using set_update_subset [of s "nextAddr (heap g)" "healthStats g"] Bs n
      unfolding ok by auto
    have 2: "\<forall>e \<in> set (HealthStats (metrics (snd (performHealthCheck env s si g)))). snd e \<notin> Bs"
      using set_update_subset [of s "nextAddr (heap g)" "HealthStats (metrics g)"] Bs n
      unfolding ok by auto
    have 3: "\<forall>a \<in> Bs. hc_cells (heap (snd (performHealthCheck env s si g))) a = hc_cells (heap g) a"
      using n unfolding ok by auto
    have 4: "\<forall>a \<in> Bs. a < nextAddr (heap (snd (performHealthCheck env s si g)))"
      using C unfolding ok by auto
    show ?thesis using As 1 2 3 4 Probe by (auto simp add: performHealthCheck_metrics)
  qed
qed

lemma mutate_frame_fold:
  "\<forall>e \<in> set (ServiceMetrics (metrics g)). snd e \<notin> As \<Longrightarrow>
   \<forall>e \<in> set (HealthStats (metrics g)) \<union> set (healthStats g). snd e \<notin> Bs \<Longrightarrow>
   \<forall>a \<in> Bs. a < nextAddr (heap g) \<Longrightarrow>
   (\<forall>e \<in> set (ServiceMetrics (metrics (fold (mutate F) ms g))). snd e \<notin> As) \<and>
   (\<forall>e \<in> set (HealthStats (metrics (fold (mutate F) ms g))) \<union> set (healthStats (fold (mutate F) ms g)).
       snd e \<notin> Bs) \<and>
   (\<forall>a \<in> As. sm_cells (heap (fold (mutate F) ms g)) a = sm_cells (heap g) a) \<and>
   (\<forall>a \<in> Bs. hc_cells (heap (fold (mutate F) ms g)) a = hc_cells (heap g) a)"
proof (induction ms arbitrary: g)
  case Nil
  then show ?case by simp
next
  case (Cons m ms)
  note f = mutate_frame [OF Cons.prems, of F m]
  have "(\<forall>e \<in> set (ServiceMetrics (metrics (fold (mutate F) ms (mutate F m g)))). snd e \<notin> As) \<and>
   (\<forall>e \<in> set (HealthStats (metrics (fold (mutate F) ms (mutate F m g)))) \<union>
           set (healthStats (fold (mutate F) ms (mutate F m g))). snd e \<notin> Bs) \<and>
   (\<forall>a \<in> As. sm_cells (heap (fold (mutate F) ms (mutate F m g))) a = sm_cells (heap (mutate F m g)) a) \<and>
   (\<forall>a \<in> Bs. hc_cells (heap (fold (mutate F) ms (mutate F m g))) a = hc_cells (heap (mutate F m g)) a)"
    using f by (intro Cons.IH) blast+
  then show ?case using f by simp
qed

lemma map_pair_zip: "map (\<lambda>e. (fst e, f e)) xs = zip (map fst xs) (map f xs)"
  by (induction xs) simp_all

lemma disjoint_image: "\<forall>e \<in> X. f e \<notin> S \<Longrightarrow> S \<inter> f ` X = {}"
  by auto

text \<open>
  C9. For a processor whose maps have distinct keys and allocated pointers (every
  state reached from a started processor, see \<open>well_formed_reachable\<close> below),
  \<open>GetMetrics\<close> returns a value that shares no pointer with the live maps, and after
  any later sequence of metric updates and probes that value still shows what the live
  metrics showed when the snapshot was taken.
\<close>

theorem snapshot_is_a_copy:
  assumes wf: "well_formed gp"
  shows "contents (heap (fold (mutate F) ms (snd (GetMetrics gp)))) (fst (GetMetrics gp)) =
           contents (heap gp) (metrics gp) \<and>
         snd ` set (ServiceMetrics (fst (GetMetrics gp))) \<inter>
           snd ` set (ServiceMetrics (metrics (fold (mutate F) ms (snd (GetMetrics gp))))) = {} \<and>
         snd ` set (HealthStats (fst (GetMetrics gp))) \<inter>
           (snd ` set (HealthStats (metrics (fold (mutate F) ms (snd (GetMetrics gp))))) \<union>
            snd ` set (healthStats (fold (mutate F) ms (snd (GetMetrics gp))))) = {}"
proof -
  let ?m = "metrics gp"
  let ?n0 = "nextAddr (heap gp)"
  define r1 where "r1 = fold copy_sm (ServiceMetrics ?m) ([], heap gp)"
  define r2 where "r2 = fold copy_hc (HealthStats ?m) ([], snd r1)"
  define g1 where "g1 = gp\<lparr>heap := snd r2\<rparr>"
  define snap where "snap = fst (GetMetrics gp)"
  define g where "g = fold (mutate F) ms g1"
  have snap: "ServiceMetrics snap = fst r1" "HealthStats snap = fst r2"
    "TotalRequests snap = TotalRequests ?m" "SuccessRequests snap = SuccessRequests ?m"
    "ErrorRequests snap = ErrorRequests ?m" "AverageLatency snap = AverageLatency ?m"
    "StartTime snap = StartTime ?m"
    by (simp_all add: snap_def GetMetrics_def Let_def r1_def r2_def)
  have g1: "snd (GetMetrics gp) = g1"
    by (simp add: GetMetrics_def Let_def r1_def r2_def g1_def)
  have d1: "distinct (map fst (ServiceMetrics ?m))" and d2: "distinct (map fst (HealthStats ?m))"
    and l1: "\<forall>e \<in> set (ServiceMetrics ?m). snd e < ?n0"
    and l2: "\<forall>e \<in> set (HealthStats ?m). snd e < ?n0"
    and l3: "\<forall>e \<in> set (healthStats gp). snd e < ?n0"
    using wf by (auto simp add: well_formed_def list_all_iff)
  have c1: "map fst (fst r1) = map fst (ServiceMetrics ?m)"
    "map (\<lambda>e. sm_cells (snd r1) (snd e)) (fst r1) = map (\<lambda>e. sm_cells (heap gp) (snd e)) (ServiceMetrics ?m)"
    "\<forall>e \<in> set (fst r1). ?n0 \<le> snd e"
    "hc_cells (snd r1) = hc_cells (heap gp)"
    "?n0 \<le> nextAddr (snd r1)"
    using copy_sm_fold [OF d1, of "[]" "heap gp"] l1 unfolding r1_def by simp_all
  have l2': "\<forall>e \<in> set (HealthStats ?m). snd e < nextAddr (snd r1)"
    using l2 c1(5) by auto
  have c2: "map fst (fst r2) = map fst (HealthStats ?m)"
    "map (\<lambda>e. hc_cells (snd r2) (snd e)) (fst r2) = map (\<lambda>e. hc_cells (snd r1) (snd e)) (HealthStats ?m)"
    "\<forall>e \<in> set (fst r2). nextAddr (snd r1) \<le> snd e"
    "\<forall>e \<in> set (fst r2). snd e < nextAddr (snd r2)"
    "sm_cells (snd r2) = sm_cells (snd r1)"
    using copy_hc_fold [OF d2, of "[]" "snd r1"] l2' unfolding r2_def by simp_all
  let ?As = "snd ` set (fst r1)" and ?Bs = "snd ` set (fst r2)"
  have f1: "\<forall>e \<in> set (ServiceMetrics (metrics g1)). snd e \<notin> ?As"
    using l1 c1(3) by (fastforce simp add: g1_def)
  have f2: "\<forall>e \<in> set (HealthStats (metrics g1)) \<union> set (healthStats g1). snd e \<notin> ?Bs"
    using l2 l3 c2(3) c1(5) by (fastforce simp add: g1_def)
  have f3: "\<forall>a \<in> ?Bs. a < nextAddr (heap g1)"
    using c2(4) by (auto simp add: g1_def)
  note fr = mutate_frame_fold [OF f1 f2 f3, of F ms, folded g_def]
  have k1: "map (\<lambda>e. sm_cells (heap g) (snd e)) (fst r1) =
              map (\<lambda>e. sm_cells (heap gp) (snd e)) (ServiceMetrics ?m)"
  proof -
    have "map (\<lambda>e. sm_cells (heap g) (snd e)) (fst r1) = map (\<lambda>e. sm_cells (snd r1) (snd e)) (fst r1)"
      using fr c2(5) by (auto simp add: g1_def)
    then show ?thesis using c1(2) by simp
  qed
  have k2: "map (\<lambda>e. hc_cells (heap g) (snd e)) (fst r2) =
              map (\<lambda>e. hc_cells (heap gp) (snd e)) (HealthStats ?m)"
  proof -
    have "map (\<lambda>e. hc_cells (heap g) (snd e)) (fst r2) = map (\<lambda>e. hc_cells (snd r2) (snd e)) (fst r2)"
      using fr by (auto simp add: g1_def)
    then show ?thesis using c2(2) c1(4) by simp
  qed
  have "contents (heap g) snap = contents (heap gp) ?m"
    unfolding contents_def snap
    by (simp add: map_pair_zip [of "\<lambda>e. sm_cells (heap g) (snd e)"]
        map_pair_zip [of "\<lambda>e. hc_cells (heap g) (snd e)"]
        map_pair_zip [of "\<lambda>e. sm_cells (heap gp) (snd e)"]
        map_pair_zip [of "\<lambda>e. hc_cells (heap gp) (snd e)"] k1 k2 c1(1) c2(1))
  moreover have "?As \<inter> snd ` set (ServiceMetrics (metrics g)) = {}"
    using disjoint_image [OF conjunct1 [OF fr]] .
  moreover have "?Bs \<inter> (snd ` set (HealthStats (metrics g)) \<union> snd ` set (healthStats g)) = {}"
    using disjoint_image [OF conjunct1 [OF conjunct2 [OF fr]]] by (simp add: image_Un)
  ultimately show ?thesis
    unfolding g1 g_def [symmetric] snap_def [symmetric] snap by simp
qed

lemma example_gp_more:
  "AverageLatency (metrics example_gp) = 0"
  "StartTime (metrics example_gp) = 0"
  by (simp_all add: example_gp_def Start_def Start_entry_def NewGatewayProcessor_def new_sm_def
      Let_def exact_ops_def)

text \<open>
  A snapshot of the started example processor still shows zero requests for \<open>echo\<close>
  after a request has been recorded.
\<close>

theorem snapshot_is_a_copy_witness:
  "well_formed example_gp \<and>
   contents (heap (fold (mutate exact_ops) [RecordRequest 5 ''echo'' True]
                    (snd (GetMetrics example_gp))))
            (fst (GetMetrics example_gp)) =
     ((0, 0, 0, 0, 0), [(''echo'', zero_sm exact_ops)], [])"
proof -
  have wf: "well_formed example_gp"
    by (simp add: well_formed_def example_gp_fields)
  show ?thesis
    using snapshot_is_a_copy [OF wf, of exact_ops "[RecordRequest 5 ''echo'' True]"]
    by (simp add: wf contents_def example_gp_fields example_gp_more)
qed

lemma well_formed_New: "well_formed (NewGatewayProcessor F t0)"
  by (simp add: well_formed_def NewGatewayProcessor_def)

lemma update_bound:
  "\<forall>x \<in> set al. snd x < n \<Longrightarrow> \<forall>x \<in> set (AList.update k n al). snd x < Suc n"
  by (induction al) auto

lemma well_formed_Start_entry:
  assumes "well_formed gp"
  shows "well_formed (Start_entry F e gp)"
proof -
  have "\<forall>x \<in> set (AList.update (fst e) (nextAddr (heap gp)) (ServiceMetrics (metrics gp))).
          snd x < Suc (nextAddr (heap gp))"
    using assms by (intro update_bound) (simp add: well_formed_def list_all_iff)
  then show ?thesis
    using assms
    by (auto simp add: well_formed_def Start_entry_def Let_def new_sm_def list_all_iff
        distinct_update less_Suc_eq)
qed

lemma well_formed_Start:
  "well_formed gp \<Longrightarrow> well_formed (Start F fmt now registry gp)"
proof -
  have "well_formed gp \<Longrightarrow> well_formed (fold (Start_entry F) registry gp)"
    by (induction registry arbitrary: gp) (simp_all add: well_formed_Start_entry)
  then show "well_formed gp \<Longrightarrow> well_formed (Start F fmt now registry gp)"
    by (simp add: Start_def Let_def well_formed_def)
qed

lemma well_formed_mutate:
  assumes "well_formed gp"
  shows "well_formed (mutate F m gp)"
proof (cases m)
  case (RecordRequest now s ok)
  then show ?thesis using assms by (simp add: well_formed_def updateRequestMetrics_frame)
next
  case (RecordLatency s d)
  then show ?thesis using assms by (simp add: well_formed_def updateLatencyMetrics_frame)
next
  case (Probe env s si)
  show ?thesis
  proof (cases "NewRequest env ''GET'' (HealthCheck si)")
    case (Some e)
    then show ?thesis using assms Probe by (simp add: performHealthCheck_fail)
  next
    case None
    note ok = performHealthCheck_ok [OF None, of s gp]
    have 1: "\<forall>x \<in> set (AList.update s (nextAddr (heap gp)) (healthStats gp)).
               snd x < Suc (nextAddr (heap gp))"
      using assms by (intro update_bound) (simp add: well_formed_def list_all_iff)
    have 2: "\<forall>x \<in> set (AList.update s (nextAddr (heap gp)) (HealthStats (metrics gp))).
               snd x < Suc (nextAddr (heap gp))"
      using assms by (intro update_bound) (simp add: well_formed_def list_all_iff)
    show ?thesis
      using assms 1 2 Probe
      by (auto simp add: well_formed_def ok performHealthCheck_metrics list_all_iff
          distinct_update less_Suc_eq)
  qed
qed

lemma well_formed_reachable:
  "well_formed (fold (mutate F) ms (Start F fmt now registry (NewGatewayProcessor F t0)))"
proof -
  have r: "\<And>gp. well_formed gp \<Longrightarrow> well_formed (fold (mutate F) ms gp)"
    by (induction ms) (simp_all add: well_formed_mutate)
  show ?thesis by (rule r) (intro well_formed_Start well_formed_New)
qed


end
